theory Spec2Isabelle
  imports Main "HOL-Library.Word"
begin

unbundle bit_operations_syntax

section \<open>Transaction coordinator (txn)\<close>

text \<open>
  The transaction code works on pointers to tuples, spaces and rows, on the
  fiber-local slot returned by \<open>in_txn()\<close>, on the fiber's scratch region
  \<open>fiber()->gc\<close> and on four collaborators that are called but not defined
  there: the engine (\<open>space_replace\<close>, \<open>txnFinish\<close>), the log writer
  (\<open>wal_write\<close>), the trigger lists (\<open>trigger_run\<close>) and the port
  (\<open>port_add_tuple\<close>).  The model keeps the slot, the region and the engine
  state in a record and writes every call to a collaborator, in program order,
  to a trace of events.  The engine's replace and the writer's return code are
  parameters of the functions that call them.
\<close>

type_synonym tuple = nat \<comment> \<open>\<open>struct tuple *\<close>: the identity of a reference-counted tuple\<close>

type_synonym trigger = nat \<comment> \<open>an entry of a trigger list\<close>

datatype dup_replace_mode = DUP_INSERT | DUP_REPLACE | DUP_REPLACE_OR_INSERT

datatype wal_mode = WAL_NONE | WAL_WRITE | WAL_FSYNC

record space =
  space_id :: nat
  temporary :: bool
  on_replace :: "trigger list"
  run_triggers :: bool

record iproto_header =
  row_type :: nat
  bodycnt :: nat
  row_body :: "nat list list"

record request =
  req_type :: nat
  req_header :: "iproto_header option"
  req_encode :: "nat list list" \<comment> \<open>the segments \<open>request_encode\<close> writes to \<open>row->body\<close>\<close>

record txn =
  old_tuple :: "tuple option"
  new_tuple :: "tuple option"
  txn_space :: "space option"
  row :: "iproto_header option"
  on_commit :: "trigger list"
  on_rollback :: "trigger list"

datatype region_obj = Region_txn | Region_row

datatype event =
    Space_replace space "tuple option" "tuple option" dup_replace_mode
  | Tuple_ref tuple int
  | Trigger_run trigger
  | Wal_write "iproto_header option"
  | Say_warn_too_long nat
  | Port_add_tuple tuple
  | Engine_txn_finish space
  | Fiber_gc

record 'e fiber =
  in_txn :: "txn option" \<comment> \<open>the fiber-local slot \<open>in_txn()\<close>\<close>
  gc :: "region_obj list" \<comment> \<open>what lives in \<open>fiber()->gc\<close> since the last \<open>fiber_gc()\<close>\<close>
  engine :: 'e
  recovery_wal_mode :: wal_mode \<comment> \<open>\<open>recovery_state->wal_mode\<close>\<close>
  trace :: "event list"

datatype fault =
    Assert_not_in_txn \<comment> \<open>\<open>assert(! in_txn())\<close> of \<open>txn_begin\<close>\<close>
  | Assert_txn_is_in_txn \<comment> \<open>\<open>assert(txn == in_txn())\<close>\<close>
  | Assert_old_or_new \<comment> \<open>\<open>assert(old_tuple || new_tuple)\<close>\<close>
  | Assert_row_after_add_redo \<comment> \<open>\<open>assert(wal_mode == WAL_NONE || txn->row != NULL)\<close>\<close>
  | Null_txn \<comment> \<open>a field of a NULL \<open>txn\<close> is written\<close>
  | Null_space \<comment> \<open>a field of a NULL \<open>txn->space\<close> is read\<close>

datatype exn = ER_WAL_IO | Engine_error nat

text \<open>
  A call returns, raises a C++ exception (the state reached at the
  \<open>tnt_raise\<close> stays), or stops the process at a failed assertion or at a
  NULL pointer.  The functions are handed the transaction as a pointer; the
  model takes it from the slot, as their callers do (\<open>in_txn()\<close>).
\<close>

datatype 's outcome = Returned 's | Raised exn 's | Aborted fault

type_synonym 'e replace_fn =
  "'e \<Rightarrow> space \<Rightarrow> tuple option \<Rightarrow> tuple option \<Rightarrow> dup_replace_mode
     \<Rightarrow> nat + (tuple option \<times> 'e)"

definition emit :: "event list \<Rightarrow> 'e fiber \<Rightarrow> 'e fiber" where
  "emit evs s = s\<lparr>trace := trace s @ evs\<rparr>"

definition trigger_run :: "trigger list \<Rightarrow> event list" where
  "trigger_run l = map Trigger_run l"

definition tuple_changed :: "txn \<Rightarrow> bool" where
  "tuple_changed t \<longleftrightarrow> old_tuple t \<noteq> None \<or> new_tuple t \<noteq> None"

definition port_send_tuple :: "txn \<Rightarrow> event list" where
  "port_send_tuple t =
     (case new_tuple t of
        Some tuple \<Rightarrow> [Port_add_tuple tuple]
      | None \<Rightarrow> (case old_tuple t of
                   Some tuple \<Rightarrow> [Port_add_tuple tuple]
                 | None \<Rightarrow> []))"

definition region_alloc0_txn :: txn where
  "region_alloc0_txn =
     \<lparr>old_tuple = None, new_tuple = None, txn_space = None, row = None,
      on_commit = [], on_rollback = []\<rparr>"

definition txn_add_redo :: "request \<Rightarrow> 'e fiber \<Rightarrow> 'e fiber outcome" where
  "txn_add_redo req s =
     (case in_txn s of
        None \<Rightarrow> Aborted Null_txn
      | Some t \<Rightarrow>
          if recovery_wal_mode s = WAL_NONE \<or> req_header req \<noteq> None
          then Returned (s\<lparr>in_txn := Some (t\<lparr>row := req_header req\<rparr>)\<rparr>)
          else Returned (s\<lparr>in_txn := Some (t\<lparr>row := Some
                   \<lparr>row_type = req_type req, bodycnt = length (req_encode req),
                    row_body = req_encode req\<rparr>\<rparr>),
                 gc := gc s @ [Region_row]\<rparr>))"

definition txn_replace ::
  "'e replace_fn \<Rightarrow> space \<Rightarrow> tuple option \<Rightarrow> tuple option \<Rightarrow> dup_replace_mode
     \<Rightarrow> 'e fiber \<Rightarrow> 'e fiber outcome" where
  "txn_replace space_replace sp old new mode s =
     (case in_txn s of
        None \<Rightarrow> if old = None \<and> new = None then Aborted Assert_old_or_new
                else Aborted Null_txn
      | Some t \<Rightarrow>
          if old = None \<and> new = None then Aborted Assert_old_or_new
          else (case space_replace (engine s) sp old new mode of
                  Inl e \<Rightarrow> Raised (Engine_error e) (emit [Space_replace sp old new mode] s)
                | Inr (displaced, eng) \<Rightarrow>
                    Returned (emit
                      ([Space_replace sp old new mode]
                       @ (case new of Some n \<Rightarrow> [Tuple_ref n 1] | None \<Rightarrow> [])
                       @ (if on_replace sp \<noteq> [] \<and> run_triggers sp
                          then trigger_run (on_replace sp) else []))
                      (s\<lparr>engine := eng,
                         in_txn := Some (t\<lparr>old_tuple := displaced,
                                           new_tuple := (case new of Some n \<Rightarrow> Some n
                                                         | None \<Rightarrow> new_tuple t),
                                           txn_space := Some sp\<rparr>)\<rparr>))))"

definition txn_begin :: "'e fiber \<Rightarrow> 'e fiber outcome" where
  "txn_begin s =
     (if in_txn s \<noteq> None then Aborted Assert_not_in_txn
      else Returned (s\<lparr>gc := gc s @ [Region_txn], in_txn := Some region_alloc0_txn\<rparr>))"

definition txn_finish :: "txn \<Rightarrow> 'e fiber \<Rightarrow> 'e fiber" where
  "txn_finish t s =
     (emit ((case old_tuple t of Some ot \<Rightarrow> [Tuple_ref ot (- 1)] | None \<Rightarrow> [])
            @ (case txn_space t of Some sp \<Rightarrow> [Engine_txn_finish sp] | None \<Rightarrow> [])
            @ [Fiber_gc]) s)
     \<lparr>gc := [], in_txn := None\<rparr>"

text \<open>
  \<open>wal_write\<close> gives the return code of the log writer for the row it is handed;
  \<open>too_long\<close> says whether \<open>stop - start > too_long_threshold\<close> held for the call.
\<close>

definition txn_commit ::
  "(iproto_header option \<Rightarrow> int) \<Rightarrow> bool \<Rightarrow> 'e fiber \<Rightarrow> 'e fiber outcome" where
  "txn_commit wal_write too_long s =
     (case in_txn s of
        None \<Rightarrow> Aborted Assert_txn_is_in_txn
      | Some t \<Rightarrow>
          let finish = (\<lambda>s1. Returned (txn_finish t
                          (emit (trigger_run (on_commit t) @ port_send_tuple t) s1)))
          in if tuple_changed t then
               (case txn_space t of
                  None \<Rightarrow> Aborted Null_space
                | Some sp \<Rightarrow>
                    if \<not> temporary sp then
                      if \<not> (recovery_wal_mode s = WAL_NONE \<or> row t \<noteq> None)
                      then Aborted Assert_row_after_add_redo
                      else
                        let res = wal_write (row t);
                            s1 = emit ([Wal_write (row t)]
                                   @ (case row t of
                                        Some r \<Rightarrow> if too_long then [Say_warn_too_long (row_type r)]
                                                  else []
                                      | None \<Rightarrow> [])) s
                        in if res \<noteq> 0 then Raised ER_WAL_IO s1 else finish s1
                    else finish s)
             else finish s)"

definition txn_rollback :: "'e replace_fn \<Rightarrow> 'e fiber \<Rightarrow> 'e fiber outcome" where
  "txn_rollback space_replace s =
     (case in_txn s of
        None \<Rightarrow> Returned s
      | Some t \<Rightarrow>
          if tuple_changed t then
            (case txn_space t of
               None \<Rightarrow> Aborted Null_space
             | Some sp \<Rightarrow>
                 (case space_replace (engine s) sp (new_tuple t) (old_tuple t) DUP_INSERT of
                    Inl e \<Rightarrow> Raised (Engine_error e)
                               (emit [Space_replace sp (new_tuple t) (old_tuple t) DUP_INSERT] s)
                  | Inr (displaced, eng) \<Rightarrow>
                      Returned
                        ((emit ([Space_replace sp (new_tuple t) (old_tuple t) DUP_INSERT]
                                @ trigger_run (on_rollback t)
                                @ (case new_tuple t of Some n \<Rightarrow> [Tuple_ref n (- 1)]
                                   | None \<Rightarrow> [])
                                @ [Fiber_gc])
                           (s\<lparr>engine := eng\<rparr>))
                         \<lparr>gc := [], in_txn := None\<rparr>)))
          else Returned ((emit [Fiber_gc] s)\<lparr>gc := [], in_txn := None\<rparr>))"

subsection \<open>An engine and a fiber to run the coordinator on\<close>

text \<open>
  Modelled from the spec: the storage engine's \<open>space_replace\<close> is not part of
  the transaction code.  The spec gives it as
  \<open>replace(space, old, new, mode) -> displaced_tuple\<close>, an atomic index mutation
  whose mode says whether a key collision is an error (\<open>DUP_INSERT\<close>), required
  (\<open>DUP_REPLACE\<close>) or either (\<open>DUP_REPLACE_OR_INSERT\<close>), and which leaves the
  index as it was when it raises.  Here a space is one unique index from keys
  to tuples; a collision with the tuple named as \<open>old\<close> is the replacement
  asked for and no error.
\<close>

type_synonym index = "nat \<Rightarrow> nat \<rightharpoonup> tuple"

definition ER_TUPLE_FOUND :: nat where "ER_TUPLE_FOUND = 3"

definition ER_TUPLE_NOT_FOUND :: nat where "ER_TUPLE_NOT_FOUND = 4"

definition index_replace :: "(tuple \<Rightarrow> nat) \<Rightarrow> index replace_fn" where
  "index_replace key_of e sp old new mode =
     (let idx = e (space_id sp) in
      case new of
        None \<Rightarrow>
          (case old of
             None \<Rightarrow> Inr (None, e)
           | Some ot \<Rightarrow> Inr (Some ot, e(space_id sp := idx(key_of ot := None))))
      | Some n \<Rightarrow>
          (case idx (key_of n) of
             None \<Rightarrow>
               if mode = DUP_REPLACE then Inl ER_TUPLE_NOT_FOUND
               else (case old of
                       None \<Rightarrow> Inr (None, e(space_id sp := idx(key_of n \<mapsto> n)))
                     | Some ot \<Rightarrow>
                         Inr (Some ot,
                              e(space_id sp := (idx(key_of n \<mapsto> n))(key_of ot := None))))
           | Some dup \<Rightarrow>
               if Some dup \<noteq> old \<and> (old \<noteq> None \<or> mode = DUP_INSERT)
               then Inl ER_TUPLE_FOUND
               else Inr (Some dup, e(space_id sp := idx(key_of n \<mapsto> n)))))"

definition fiber0 :: "index fiber" where
  "fiber0 = \<lparr>in_txn = None, gc = [], engine = (\<lambda>_. Map.empty),
              recovery_wal_mode = WAL_WRITE, trace = []\<rparr>"

definition space0 :: space where
  "space0 = \<lparr>space_id = 512, temporary = False, on_replace = [], run_triggers = True\<rparr>"

definition txn1 :: txn where
  "txn1 = \<lparr>old_tuple = Some 109, new_tuple = Some 110, txn_space = Some space0,
            row = Some \<lparr>row_type = 2, bodycnt = 1, row_body = [[1, 10]]\<rparr>,
            on_commit = [21, 22], on_rollback = [31]\<rparr>"

definition key100 :: "tuple \<Rightarrow> nat" where
  "key100 t = t div 100"

definition index1 :: index where
  "index1 = (\<lambda>_. Map.empty)(512 := [1 \<mapsto> 109])"

definition index2 :: index where
  "index2 = (\<lambda>_. Map.empty)(512 := [1 \<mapsto> 110])"

definition request1 :: request where
  "request1 = \<lparr>req_type = 2, req_header = None, req_encode = [[1, 110]]\<rparr>"

text \<open>The state a call stopped in, when the process survived it.\<close>

fun final :: "'s outcome \<Rightarrow> 's option" where
  "final (Returned s) = Some s"
| "final (Raised e s) = Some s"
| "final (Aborted a) = None"

section \<open>The v11 log format: framed records and the cursor\<close>

type_synonym byte = "8 word"

type_synonym log_magic_t = "32 word"

definition row_marker_v11 :: log_magic_t where
  "row_marker_v11 = 0xba0babed"

definition eof_marker_v11 :: log_magic_t where
  "eof_marker_v11 = 0x10adab1e"

text \<open>
  A stream is the bytes of the file and a position.  \<open>fread f pos sz\<close> is
  \<open>fread(ptr, size, 1, f)\<close>: one item of \<open>sz\<close> bytes, or none.  A short
  read leaves the position at the end of the file; an item of size 0 is never
  read (the call returns 0 and moves nothing).
\<close>

definition fread :: "byte list \<Rightarrow> nat \<Rightarrow> nat \<Rightarrow> byte list option \<times> nat" where
  "fread f pos sz =
     (if sz = 0 then (None, pos)
      else if pos + sz \<le> length f then (Some (take sz (drop pos f)), pos + sz)
      else (None, max pos (length f)))"

text \<open>An integer as \<open>fread\<close> leaves it in memory on a little-endian host.\<close>

primrec le_word :: "byte list \<Rightarrow> 'a::len word" where
  "le_word [] = 0"
| "le_word (b # bs) = ucast b OR push_bit 8 (le_word bs)"

text \<open>
  \<open>magic = magic >> 8 | ((log_magic_t) c & 0xff) << (sizeof(magic)*8 - 8)\<close>,
  for a character \<open>c\<close> that \<open>fgetc\<close> returned.
\<close>

definition slide :: "log_magic_t \<Rightarrow> byte \<Rightarrow> log_magic_t" where
  "slide magic c = drop_bit 8 magic OR push_bit 24 (ucast c)"

text \<open>
  The \<open>while (magic != row_marker_v11)\<close> loop over the bytes that are left in
  the file: whether the marker was found, and the position of the stream.
\<close>

fun find_magic :: "log_magic_t \<Rightarrow> byte list \<Rightarrow> nat \<Rightarrow> bool \<times> nat" where
  "find_magic magic [] pos = (magic = row_marker_v11, pos)"
| "find_magic magic (c # rest) pos =
     (if magic = row_marker_v11 then (True, pos)
      else find_magic (slide magic c) rest (Suc pos))"

record header_v11 =
  header_crc32c :: "32 word"
  lsn :: "64 word"
  tm :: "64 word" \<comment> \<open>the eight bytes of the double\<close>
  len :: "32 word"
  data_crc32c :: "32 word"

definition header_v11_of :: "byte list \<Rightarrow> header_v11" where
  "header_v11_of m =
     \<lparr>header_crc32c = le_word (take 4 m),
      lsn = le_word (take 8 (drop 4 m)),
      tm = le_word (take 8 (drop 12 m)),
      len = le_word (take 4 (drop 20 m)),
      data_crc32c = le_word (take 4 (drop 24 m))\<rparr>"

text \<open>
  Modelled from the spec: \<open>crc32_calc\<close> of \<open>crc32.h\<close> is not part of the
  reader's file.  The spec names it CRC32-Castagnoli; it is taken bit by bit,
  reflected, with the polynomial \<open>0x82F63B78\<close>, continuing from the value
  handed in.
\<close>

definition crc32c_bit :: "32 word \<Rightarrow> 32 word" where
  "crc32c_bit x = (if bit x 0 then drop_bit 1 x XOR 0x82F63B78 else drop_bit 1 x)"

definition crc32c_byte :: "32 word \<Rightarrow> byte \<Rightarrow> 32 word" where
  "crc32c_byte crc b =
     crc32c_bit (crc32c_bit (crc32c_bit (crc32c_bit
       (crc32c_bit (crc32c_bit (crc32c_bit (crc32c_bit (crc XOR ucast b))))))))"

definition crc32_calc :: "32 word \<Rightarrow> byte list \<Rightarrow> 32 word" where
  "crc32_calc crc buf = foldl crc32c_byte crc buf"

datatype row = ROW_EOF | ROW_NULL | Row "byte list"

text \<open>
  \<open>region_alloc\<close> says whether the fiber's region can give that many bytes.
  Both checksums are computed and dropped: the two comparisons with the stored
  values stand between \<open>#if 0\<close> and \<open>#endif\<close>.  The row returned is the header
  followed by the body, \<open>*rowlen = m.len + sizeof(m)\<close> bytes.
\<close>

definition row_reader_v11 :: "(nat \<Rightarrow> bool) \<Rightarrow> byte list \<Rightarrow> nat \<Rightarrow> row \<times> nat" where
  "row_reader_v11 region_alloc f pos =
     (case fread f pos 28 of
        (None, pos1) \<Rightarrow> (ROW_EOF, pos1)
      | (Some m, pos1) \<Rightarrow>
          let header_crc = crc32_calc 0 (drop 4 m);
              mlen = unat (len (header_v11_of m))
          in if \<not> region_alloc (28 + mlen) then (ROW_NULL, pos1)
             else (case fread f pos1 mlen of
                     (None, pos2) \<Rightarrow> (ROW_EOF, pos2)
                   | (Some body, pos2) \<Rightarrow>
                       let data_crc = crc32_calc 0 body
                       in (Row (m @ body), pos2)))"

datatype say =
    Say_warn_skipped int nat \<comment> \<open>skipped %jd bytes after 0x%08jx offset\<close>
  | Say_debug_magic_found nat
  | Say_debug_eof_looking_for_magic
  | Say_warn_failed_to_read_row
  | Say_error_cant_read_eof_marker
  | Say_error_eof_marker_corrupt log_magic_t

record xlog_cursor =
  row_count :: nat
  good_offset :: nat
  eof_read :: bool
  fpos :: nat \<comment> \<open>the position of the stream \<open>i->log->f\<close>\<close>
  rows :: nat \<comment> \<open>\<open>i->log->rows\<close>\<close>
  said :: "say list"

definition say :: "say list \<Rightarrow> xlog_cursor \<Rightarrow> xlog_cursor" where
  "say msgs i = i\<lparr>said := said i @ msgs\<rparr>"

definition xlog_cursor_v11_open :: "nat \<Rightarrow> nat \<Rightarrow> xlog_cursor" where
  "xlog_cursor_v11_open pos lrows =
     \<lparr>row_count = 0, good_offset = pos, eof_read = False, fpos = pos, rows = lrows, said = []\<rparr>"

definition xlog_cursor_v11_close :: "xlog_cursor \<Rightarrow> xlog_cursor" where
  "xlog_cursor_v11_close i = i\<lparr>rows := rows i + row_count i, fpos := good_offset i\<rparr>"

text \<open>The code from the label \<open>eof\<close> on; the call then returns NULL.\<close>

definition cursor_eof :: "byte list \<Rightarrow> xlog_cursor \<Rightarrow> xlog_cursor" where
  "cursor_eof f i =
     (if fpos i = good_offset i + 4 then
        (case fread f (good_offset i) 4 of
           (None, pos) \<Rightarrow> say [Say_error_cant_read_eof_marker] (i\<lparr>fpos := pos\<rparr>)
         | (Some bs, pos) \<Rightarrow>
             let magic = le_word bs in
             if magic = eof_marker_v11 then i\<lparr>fpos := pos, good_offset := pos, eof_read := True\<rparr>
             else if magic \<noteq> row_marker_v11
             then say [Say_error_eof_marker_corrupt magic] (i\<lparr>fpos := pos\<rparr>)
             else i\<lparr>fpos := pos\<rparr>)
      else i)"

text \<open>
  One pass from the label \<open>restart\<close>: it ends the call (with a row, or through
  \<open>eof\<close> with none) or goes back to \<open>restart\<close> with the offset of the marker
  it found.
\<close>

datatype attempt = Done "byte list option" xlog_cursor | Restart xlog_cursor nat

definition next_attempt ::
  "(nat \<Rightarrow> bool) \<Rightarrow> byte list \<Rightarrow> xlog_cursor \<Rightarrow> nat \<Rightarrow> attempt" where
  "next_attempt region_alloc f i marker_offset =
     (let i1 = (if marker_offset > 0 then i\<lparr>fpos := marker_offset + 1\<rparr> else i) in
      case fread f (fpos i1) 4 of
        (None, pos) \<Rightarrow> Done None (cursor_eof f (i1\<lparr>fpos := pos\<rparr>))
      | (Some bs, pos) \<Rightarrow>
          (case find_magic (le_word bs) (drop pos f) pos of
             (False, pos1) \<Rightarrow>
               Done None (cursor_eof f (say [Say_debug_eof_looking_for_magic] (i1\<lparr>fpos := pos1\<rparr>)))
           | (True, pos1) \<Rightarrow>
               let marker_offset1 = pos1 - 4;
                   i2 = say ((if good_offset i1 \<noteq> marker_offset1
                              then [Say_warn_skipped (int marker_offset1 - int (good_offset i1))
                                      (good_offset i1)]
                              else [])
                             @ [Say_debug_magic_found marker_offset1]) (i1\<lparr>fpos := pos1\<rparr>)
               in (case row_reader_v11 region_alloc f pos1 of
                     (ROW_EOF, pos2) \<Rightarrow> Done None (cursor_eof f (i2\<lparr>fpos := pos2\<rparr>))
                   | (ROW_NULL, pos2) \<Rightarrow>
                       Restart (say [Say_warn_failed_to_read_row] (i2\<lparr>fpos := pos2\<rparr>))
                         marker_offset1
                   | (Row r, pos2) \<Rightarrow>
                       Done (Some r)
                         (i2\<lparr>fpos := pos2, good_offset := pos2,
                             row_count := row_count i2 + 1\<rparr>))))"

text \<open>Where a pass from \<open>restart\<close> starts to read.\<close>

definition start_pos :: "xlog_cursor \<Rightarrow> nat \<Rightarrow> nat" where
  "start_pos i marker_offset = (if marker_offset > 0 then marker_offset + 1 else fpos i)"

text \<open>
  Every way back to \<open>restart\<close> starts the next pass further on in the file,
  so the loop ends.
\<close>

lemma fread_Some: "fread f pos n = (Some bs, pos') \<Longrightarrow>
   pos' = pos + n \<and> pos + n \<le> length f \<and> 0 < n \<and> bs = take n (drop pos f)"
  by (auto simp: fread_def split: if_splits)

lemma fread_None: "fread f pos n = (None, pos') \<Longrightarrow> pos \<le> pos'"
  by (auto simp: fread_def split: if_splits)

lemma find_magic_pos: "find_magic magic rest pos = (b, pos') \<Longrightarrow>
   pos \<le> pos' \<and> pos' \<le> pos + length rest"
proof (induction rest arbitrary: magic pos)
  case Nil
  then show ?case by simp
next
  case (Cons c rest)
  show ?case
  proof (cases "magic = row_marker_v11")
    case True
    with Cons.prems show ?thesis by simp
  next
    case False
    with Cons.prems have "find_magic (slide magic c) rest (Suc pos) = (b, pos')" by simp
    from Cons.IH [OF this] show ?thesis by simp
  qed
qed

lemma row_reader_NULL: "row_reader_v11 a f pos = (ROW_NULL, pos') \<Longrightarrow>
   pos' = pos + 28 \<and> pos + 28 \<le> length f"
  by (auto simp: row_reader_v11_def Let_def split: prod.splits option.splits if_splits
           dest: fread_Some)

lemma next_attempt_Restart:
  assumes "next_attempt a f i mo = Restart i' mo'"
  shows "start_pos i mo < start_pos i' mo' \<and> start_pos i' mo' \<le> length f"
proof -
  let ?p = "start_pos i mo"
  obtain bs pos where r1: "fread f ?p 4 = (Some bs, pos)"
    using assms
    by (auto simp: next_attempt_def start_pos_def Let_def split: prod.splits option.splits if_splits)
  obtain pos1 where r2: "find_magic (le_word bs) (drop pos f) pos = (True, pos1)"
    using assms r1
    by (auto simp: next_attempt_def start_pos_def Let_def split: prod.splits option.splits if_splits bool.splits)
  obtain pos2 where r3: "row_reader_v11 a f pos1 = (ROW_NULL, pos2)"
    and mo': "mo' = pos1 - 4" and i': "fpos i' = pos2"
    using assms r1 r2
    by (auto simp: next_attempt_def start_pos_def Let_def say_def
             split: prod.splits option.splits if_splits bool.splits row.splits)
  from fread_Some [OF r1] have p: "pos = ?p + 4" "?p + 4 \<le> length f" by auto
  from find_magic_pos [OF r2] have p1: "pos \<le> pos1" "pos1 \<le> pos + length (drop pos f)" by auto
  from row_reader_NULL [OF r3] have p2: "pos2 = pos1 + 28" "pos1 + 28 \<le> length f" by auto
  show ?thesis
    using p p1 p2 mo' i' by (auto simp: start_pos_def)
qed

function next_restart ::
  "(nat \<Rightarrow> bool) \<Rightarrow> byte list \<Rightarrow> xlog_cursor \<Rightarrow> nat \<Rightarrow> byte list option \<times> xlog_cursor" where
  "next_restart region_alloc f i marker_offset =
     (case next_attempt region_alloc f i marker_offset of
        Done r i1 \<Rightarrow> (r, i1)
      | Restart i1 marker_offset1 \<Rightarrow> next_restart region_alloc f i1 marker_offset1)"
  by pat_completeness auto
termination
proof (relation "measure (\<lambda>(a, f, i, mo). Suc (length f) - start_pos i mo)")
  show "wf (measure (\<lambda>(a, f, i, mo). Suc (length f) - start_pos i mo))"
    by simp
next
  fix region_alloc f i marker_offset i1 marker_offset1
  assume "next_attempt region_alloc f i marker_offset = Restart i1 marker_offset1"
  from next_attempt_Restart [OF this]
  show "((region_alloc, f, i1, marker_offset1), (region_alloc, f, i, marker_offset))
          \<in> measure (\<lambda>(a, f, i, mo). Suc (length f) - start_pos i mo)"
    by auto
qed

declare next_restart.simps [simp del]

text \<open>\<open>None\<close>: the assertion \<open>i->eof_read == false\<close> failed.\<close>

definition xlog_cursor_v11_next ::
  "(nat \<Rightarrow> bool) \<Rightarrow> byte list \<Rightarrow> xlog_cursor \<Rightarrow> (byte list option \<times> xlog_cursor) option" where
  "xlog_cursor_v11_next region_alloc f i =
     (if eof_read i then None else Some (next_restart region_alloc f i 0))"

subsection \<open>Files, records and runs of calls\<close>

text \<open>The magic that four bytes of the file at an offset read as.\<close>

definition window :: "byte list \<Rightarrow> nat \<Rightarrow> log_magic_t" where
  "window f q = le_word (take 4 (drop q f))"

text \<open>The two markers as they stand in a file.\<close>

definition row_marker_bytes :: "byte list" where
  "row_marker_bytes = [0xed, 0xab, 0x0b, 0xba]"

definition eof_marker_bytes :: "byte list" where
  "eof_marker_bytes = [0x1e, 0xab, 0xad, 0x10]"

text \<open>
  Modelled from the spec: the writer of the records is not part of the reader's
  file.  A record is the row marker, the 28 header bytes with \<open>len\<close> at
  offset 24 of the record, and \<open>len\<close> body bytes; a writer's body is never
  empty, for it starts with the tag and the cookie of the row.  The two
  checksums are left open here, so that what is shown of framed records holds
  for those with right and with wrong checksums.  A sealed file ends with the
  eof marker behind its last record.
\<close>

definition framed_v11 :: "byte list \<Rightarrow> bool" where
  "framed_v11 r \<longleftrightarrow>
     32 < length r \<and> window r 0 = row_marker_v11 \<and>
     length r = 32 + unat (le_word (take 4 (drop 24 r)) :: 32 word)"

text \<open>No row marker starts at any of the first \<open>d\<close> offsets of \<open>bs\<close>.\<close>

definition marker_free :: "byte list \<Rightarrow> nat \<Rightarrow> bool" where
  "marker_free bs d \<longleftrightarrow> list_all (\<lambda>j. window bs j \<noteq> row_marker_v11) [0..<d]"

text \<open>
  A reader's loop: at most \<open>n\<close> calls, until one returns no row; the rows
  in the order they came, and the cursor as the last call left it.
\<close>

fun cursor_rows ::
  "(nat \<Rightarrow> bool) \<Rightarrow> byte list \<Rightarrow> nat \<Rightarrow> xlog_cursor \<Rightarrow> byte list list \<times> xlog_cursor" where
  "cursor_rows region_alloc f 0 i = ([], i)"
| "cursor_rows region_alloc f (Suc n) i =
     (case xlog_cursor_v11_next region_alloc f i of
        None \<Rightarrow> ([], i)
      | Some (None, i1) \<Rightarrow> ([], i1)
      | Some (Some r, i1) \<Rightarrow>
          (case cursor_rows region_alloc f n i1 of (rs, i2) \<Rightarrow> (r # rs, i2)))"

text \<open>
  What one pass, and so one call, does to a cursor whose \<open>good_offset\<close> is
  not ahead of the stream.
\<close>

definition attempt_ok :: "byte list \<Rightarrow> xlog_cursor \<Rightarrow> attempt \<Rightarrow> bool" where
  "attempt_ok f i res =
     (case res of
        Done None i' \<Rightarrow>
          good_offset i' \<le> fpos i' \<and> row_count i' = row_count i \<and>
          (good_offset i' = good_offset i \<and> eof_read i' = eof_read i \<or>
           good_offset i' = good_offset i + 4 \<and> eof_read i' \<and>
           window f (good_offset i) = eof_marker_v11)
      | Done (Some r) i' \<Rightarrow>
          good_offset i + length r < good_offset i' \<and> good_offset i' = fpos i' \<and>
          eof_read i' = eof_read i \<and> row_count i' = row_count i + 1 \<and>
          r = take (length r) (drop (good_offset i' - length r) f)
      | Restart i' mo' \<Rightarrow>
          good_offset i' = good_offset i \<and> eof_read i' = eof_read i \<and>
          row_count i' = row_count i \<and> good_offset i' \<le> start_pos i' mo')"

text \<open>
  The cursor before and after each call of a sequence of calls, one for each
  content the file has at that call; the sequence ends at a call the assertion
  stops.
\<close>

fun cursor_states :: "(nat \<Rightarrow> bool) \<Rightarrow> byte list list \<Rightarrow> xlog_cursor \<Rightarrow> xlog_cursor list" where
  "cursor_states region_alloc [] i = [i]"
| "cursor_states region_alloc (f # fs) i =
     i # (case xlog_cursor_v11_next region_alloc f i of
            None \<Rightarrow> []
          | Some (r, i1) \<Rightarrow> cursor_states region_alloc fs i1)"

section \<open>Directory of v11 files\<close>

datatype xdir_type = SNAP | XLOG

record xdir_v11 =
  dirname :: string
  filename_ext :: string
  dir_type :: xdir_type
  dir_mode :: nat
  sig :: "int list option" \<comment> \<open>\<open>int64_t *sig\<close>: NULL, or the array of \<open>sig_count\<close> signatures\<close>
  sig_count :: nat

definition xdir_v11_create :: "string \<Rightarrow> xdir_type \<Rightarrow> xdir_v11" where
  "xdir_v11_create name type =
     \<lparr>dirname = name,
      filename_ext = (if type = SNAP then ''.snap'' else ''.xlog''),
      dir_type = type, dir_mode = 432, sig = None, sig_count = 0\<rparr>"

definition LLONG_MAX :: int where "LLONG_MAX = 2 ^ 63 - 1"

definition LLONG_MIN :: int where "LLONG_MIN = - (2 ^ 63)"

text \<open>
  \<open>strtoll(nptr, &endptr, 10)\<close> of the C library: white space, an optional sign,
  decimal digits; the value is clamped to the range of \<open>long long\<close>, and with no
  digit at all nothing is converted (\<open>endptr = nptr\<close>, value 0).  The result is
  the value and the index \<open>endptr - nptr\<close>.
\<close>

definition isspace :: "char \<Rightarrow> bool" where
  "isspace c \<longleftrightarrow> c = CHR '' '' \<or> (9 :: nat) \<le> of_char c \<and> (of_char c :: nat) \<le> 13"

definition isdigit :: "char \<Rightarrow> bool" where
  "isdigit c \<longleftrightarrow> (48 :: nat) \<le> of_char c \<and> (of_char c :: nat) \<le> 57"

definition digits_value :: "string \<Rightarrow> int" where
  "digits_value ds = foldl (\<lambda>a c. 10 * a + (int (of_char c) - 48)) 0 ds"

definition strtoll :: "string \<Rightarrow> int \<times> nat" where
  "strtoll nptr =
     (let ws = takeWhile isspace nptr;
          s1 = dropWhile isspace nptr;
          neg = (s1 \<noteq> [] \<and> hd s1 = CHR ''-'');
          signed = (s1 \<noteq> [] \<and> (hd s1 = CHR ''-'' \<or> hd s1 = CHR ''+''));
          s2 = (if signed then tl s1 else s1);
          ds = takeWhile isdigit s2;
          v = (if neg then - digits_value ds else digits_value ds)
      in if ds = [] then (0, 0)
         else (max LLONG_MIN (min LLONG_MAX v),
               length ws + (if signed then 1 else 0) + length ds))"

text \<open>\<open>strchr(s, c)\<close>: the index of the first \<open>c\<close>, or NULL.\<close>

definition strchr :: "string \<Rightarrow> char \<Rightarrow> nat option" where
  "strchr s c = (if c \<in> set s then Some (length (takeWhile (\<lambda>x. x \<noteq> c) s)) else None)"

datatype dir_say = Say_warn_cant_parse string

text \<open>
  What the body of the \<open>readdir\<close> loop makes of one name: it is passed over
  without a word (no dot, or the name from its first dot on is not the
  directory's extension), or passed over with the warning (\<open>strtoll\<close> did not
  stop at that dot, or gave \<open>LLONG_MAX\<close> or \<open>LLONG_MIN\<close>), or its signature is
  taken.
\<close>

datatype dirent_kind = Not_ours | Cant_parse | Signature int

definition dirent :: "string \<Rightarrow> string \<Rightarrow> dirent_kind" where
  "dirent fext d_name =
     (case strchr d_name CHR ''.'' of
        None \<Rightarrow> Not_ours
      | Some ext \<Rightarrow>
          if drop ext d_name \<noteq> fext then Not_ours
          else (case strtoll d_name of
                  (signature, dot) \<Rightarrow>
                    if ext \<noteq> dot \<or> signature = LLONG_MAX \<or> signature = LLONG_MIN
                    then Cant_parse
                    else Signature signature))"

text \<open>
  The \<open>while ((dent = readdir(dh)) != NULL)\<close> loop over the names that are left,
  with the array built so far and its capacity.  \<open>realloc_ok\<close> says whether
  \<open>realloc\<close> can give an array of that many signatures; \<open>None\<close> is the
  \<open>return -1\<close> after it could not.
\<close>

fun scan_entries ::
  "(nat \<Rightarrow> bool) \<Rightarrow> string \<Rightarrow> string list \<Rightarrow> int list \<Rightarrow> nat \<Rightarrow> dir_say list
     \<Rightarrow> (int list \<times> dir_say list) option" where
  "scan_entries realloc_ok fext [] signatures s_capacity log = Some (signatures, log)"
| "scan_entries realloc_ok fext (d_name # rest) signatures s_capacity log =
     (case dirent fext d_name of
        Not_ours \<Rightarrow> scan_entries realloc_ok fext rest signatures s_capacity log
      | Cant_parse \<Rightarrow>
          scan_entries realloc_ok fext rest signatures s_capacity
            (log @ [Say_warn_cant_parse d_name])
      | Signature signature \<Rightarrow>
          if length signatures = s_capacity
          then (let s_capacity1 = (if s_capacity > 0 then 2 * s_capacity else 16)
                in if \<not> realloc_ok s_capacity1 then None
                   else scan_entries realloc_ok fext rest (signatures @ [signature])
                          s_capacity1 log)
          else scan_entries realloc_ok fext rest (signatures @ [signature])
                 s_capacity log)"

text \<open>
  A scan returns -1 (\<open>Scan_failed\<close>, the directory untouched), or 0 with the
  directory updated (\<open>Scan_done\<close>).  When the directory already holds an array,
  \<open>if (derived->sig) free(derived)\<close> hands the directory object itself to
  \<open>free\<close>, not the old array, and the two assignments that follow write to the
  freed object: \<open>Scan_dir_freed\<close>, with the sorted array the scan had built.
\<close>

datatype scan_result = Scan_failed | Scan_done xdir_v11 | Scan_dir_freed "int list"

text \<open>\<open>entries\<close> is what \<open>readdir\<close> lists, \<open>None\<close> when \<open>opendir\<close> fails.\<close>

definition xdir_v11_scan ::
  "(nat \<Rightarrow> bool) \<Rightarrow> string list option \<Rightarrow> xdir_v11 \<Rightarrow> scan_result \<times> dir_say list" where
  "xdir_v11_scan realloc_ok entries dir =
     (case entries of
        None \<Rightarrow> (Scan_failed, [])
      | Some names \<Rightarrow>
          (case scan_entries realloc_ok (filename_ext dir) names [] 0 [] of
             None \<Rightarrow> (Scan_failed, [])
           | Some (signatures, log) \<Rightarrow>
               if sig dir \<noteq> None then (Scan_dir_freed (sort signatures), log)
               else (Scan_done (dir\<lparr>sig_count := length signatures,
                                     sig := (if signatures = [] then None
                                             else Some (sort signatures))\<rparr>), log)))"

section \<open>Concrete inputs\<close>

text \<open>Allocators that never and that always fail, two records, and files made of them.\<close>

definition always :: "nat \<Rightarrow> bool" where
  "always n = True"

definition never :: "nat \<Rightarrow> bool" where
  "never n = False"

definition header1 :: "byte list" where
  "header1 = [0, 0, 0, 0,  1, 0, 0, 0, 0, 0, 0, 0,  0, 0, 0, 0, 0, 0, 0, 0,  1, 0, 0, 0,  0, 0, 0, 0]"

definition rec1 :: "byte list" where
  "rec1 = row_marker_bytes @ header1 @ [0x41]"

definition rec2 :: "byte list" where
  "rec2 = row_marker_bytes
          @ [0, 0, 0, 0,  2, 0, 0, 0, 0, 0, 0, 0,  0, 0, 0, 0, 0, 0, 0, 0,  1, 0, 0, 0,  0, 0, 0, 0]
          @ [0x42]"

definition junk3 :: "byte list" where
  "junk3 = [0xde, 0xad, 0xbe]"

definition header40 :: "byte list" where
  "header40 = [0, 0, 0, 0,  1, 0, 0, 0, 0, 0, 0, 0,  0, 0, 0, 0, 0, 0, 0, 0,  40, 0, 0, 0,  0, 0, 0, 0]"

definition cursor0 :: xlog_cursor where
  "cursor0 = xlog_cursor_v11_open 0 0"

definition file4 :: "byte list" where
  "file4 = row_marker_bytes @ header40 @ rec2"

definition file5 :: "byte list" where
  "file5 = [0] @ rec1"

definition dir_scanned :: xdir_v11 where
  "dir_scanned = (xdir_v11_create ''/var/lib/wal'' XLOG)\<lparr>sig := Some [1, 5], sig_count := 2\<rparr>"

definition names6 :: "string list" where
  "names6 = [''00000000000000000005.xlog'', ''00000000000000000001.xlog'',
             ''not-a-log.txt'', ''abc.xlog'']"

definition record3 :: "byte list" where
  "record3 = [0xde, 0xad, 0xbe, 0xef] @ [3, 0, 0, 0, 0, 0, 0, 0, 0, 0, 0, 0, 0, 0, 0, 0]
             @ [2, 0, 0, 0] @ [1, 2, 3, 4] @ [0x61, 0x62]"

section \<open>Properties of the transaction coordinator\<close>

text \<open>
  C9: \<open>txn_begin\<close> fails whenever a transaction is already live on the fiber
  (the assertion \<open>! in_txn()\<close> stops it); with no live transaction it allocates
  a zeroed transaction in the fiber's region, with empty \<open>on_commit\<close> and
  \<open>on_rollback\<close> lists, and installs it in the slot, changing nothing else.
\<close>

theorem txn_begin_spec:
  "(in_txn s \<noteq> None \<longrightarrow> txn_begin s = Aborted Assert_not_in_txn) \<and>
   (in_txn s = None \<longrightarrow>
      txn_begin s = Returned (s\<lparr>gc := gc s @ [Region_txn],
                               in_txn := Some \<lparr>old_tuple = None, new_tuple = None,
                                  txn_space = None, row = None,
                                  on_commit = [], on_rollback = []\<rparr>\<rparr>))"
  by (simp add: txn_begin_def region_alloc0_txn_def)

theorem txn_begin_spec_witness:
  "txn_begin fiber0 = Returned (fiber0\<lparr>gc := [Region_txn], in_txn := Some region_alloc0_txn\<rparr>) \<and>
   txn_begin (fiber0\<lparr>in_txn := Some region_alloc0_txn\<rparr>) = Aborted Assert_not_in_txn"
  using txn_begin_spec [of fiber0]
        txn_begin_spec [of "fiber0\<lparr>in_txn := Some region_alloc0_txn\<rparr>"]
  by (simp add: fiber0_def region_alloc0_txn_def)

text \<open>
  The engine above undoes its own replace: when the old tuple handed to a
  replace is the one stored under its key, the forced insert that
  \<open>txn_rollback\<close> issues (new and displaced tuple swapped, \<open>DUP_INSERT\<close>)
  gives the index back as it was.
\<close>

lemma index_replace_undo:
  assumes r: "index_replace key_of e sp old new mode = Inr (d, e1)"
      and stored: "\<And>ot. old = Some ot \<Longrightarrow> e (space_id sp) (key_of ot) = Some ot"
      and keyed: "\<And>k t. e (space_id sp) k = Some t \<Longrightarrow> key_of t = k"
  shows "\<exists>d'. index_replace key_of e1 sp new d DUP_INSERT = Inr (d', e)"
proof (cases new)
  case None
  show ?thesis
  proof (cases old)
    case None
    with \<open>new = None\<close> r show ?thesis by (simp add: index_replace_def Let_def)
  next
    case (Some ot)
    from stored [OF Some] have h: "e (space_id sp) (key_of ot) = Some ot" .
    have e1: "e1 = e(space_id sp := (e (space_id sp))(key_of ot := None))" and d: "d = Some ot"
      using r None Some by (simp_all add: index_replace_def Let_def)
    have "(e1 (space_id sp))(key_of ot \<mapsto> ot) = e (space_id sp)"
      using h by (auto simp: e1)
    then have "e1(space_id sp := (e1 (space_id sp))(key_of ot \<mapsto> ot)) = e"
      by (simp add: e1)
    then show ?thesis
      using None by (simp add: index_replace_def Let_def d e1)
  qed
next
  case (Some n)
  show ?thesis
  proof (cases "e (space_id sp) (key_of n)")
    case None
    note free = this
    show ?thesis
    proof (cases old)
      case None
      have e1: "e1 = e(space_id sp := (e (space_id sp))(key_of n \<mapsto> n))" and d: "d = None"
        using r Some free None by (simp_all add: index_replace_def Let_def split: if_splits)
      have "(e (space_id sp))(key_of n := None) = e (space_id sp)"
        using free by auto
      then show ?thesis
        using Some by (simp add: index_replace_def Let_def d e1)
    next
      case (Some ot)
      from stored [OF Some] have h: "e (space_id sp) (key_of ot) = Some ot" .
      with free have ne: "key_of ot \<noteq> key_of n" by auto
      have e1: "e1 = e(space_id sp := ((e (space_id sp))(key_of n \<mapsto> n))(key_of ot := None))"
        and d: "d = Some ot"
        using r \<open>new = Some n\<close> free Some by (simp_all add: index_replace_def Let_def split: if_splits)
      have "(((e (space_id sp))(key_of n \<mapsto> n))(key_of ot \<mapsto> ot))(key_of n := None)
              = e (space_id sp)"
        using h free ne by (auto simp: fun_eq_iff)
      then show ?thesis
        using \<open>new = Some n\<close> ne by (simp add: index_replace_def Let_def d e1)
    qed
  next
    case (Some dup)
    note occ = this
    have e1: "e1 = e(space_id sp := (e (space_id sp))(key_of n \<mapsto> n))" and d: "d = Some dup"
      using r \<open>new = Some n\<close> occ by (simp_all add: index_replace_def Let_def split: if_splits)
    from keyed [OF occ] have kd: "key_of dup = key_of n" .
    have "(e (space_id sp))(key_of n \<mapsto> dup) = e (space_id sp)"
      using occ by auto
    then show ?thesis
      using \<open>new = Some n\<close> kd by (simp add: index_replace_def Let_def d e1)
  qed
qed

text \<open>
  C1: in \<open>txn_commit\<close> the log writer is called exactly when a tuple was
  changed and the space is not temporary.  The calls the commit makes are, in
  this order: \<open>wal_write\<close> (when logged, with the too-long warning after it),
  the \<open>on_commit\<close> triggers in list order, the delivery of the visible tuple
  (\<open>new_tuple\<close> if present, else \<open>old_tuple\<close>) to the port, and then
  \<open>txn_finish\<close>, which drops the reference on \<open>old_tuple\<close>, calls the
  engine's \<open>txnFinish\<close>, frees the region and clears the slot.  The commit is
  taken under its own assertions: the transaction is the fiber's current one,
  a changed tuple comes with its space, and \<open>txn_add_redo\<close> ran before.
\<close>

theorem txn_commit_order:
  assumes "in_txn s = Some t"
      and "tuple_changed t \<longrightarrow> txn_space t = Some sp"
      and "recovery_wal_mode s = WAL_NONE \<or> row t \<noteq> None"
  shows "txn_commit wal_write too_long s =
     (let logged = (tuple_changed t \<and> \<not> temporary sp);
          wal = (if logged
                 then [Wal_write (row t)]
                      @ (case row t of
                           Some r \<Rightarrow> if too_long then [Say_warn_too_long (row_type r)] else []
                         | None \<Rightarrow> [])
                 else [])
      in if logged \<and> wal_write (row t) \<noteq> 0
         then Raised ER_WAL_IO (s\<lparr>trace := trace s @ wal\<rparr>)
         else Returned (s\<lparr>trace := trace s @ wal
                             @ map Trigger_run (on_commit t)
                             @ (case new_tuple t of
                                  Some n \<Rightarrow> [Port_add_tuple n]
                                | None \<Rightarrow> (case old_tuple t of
                                             Some ot \<Rightarrow> [Port_add_tuple ot]
                                           | None \<Rightarrow> []))
                             @ (case old_tuple t of
                                  Some ot \<Rightarrow> [Tuple_ref ot (- 1)]
                                | None \<Rightarrow> [])
                             @ (case txn_space t of
                                  Some sp' \<Rightarrow> [Engine_txn_finish sp']
                                | None \<Rightarrow> [])
                             @ [Fiber_gc],
                          gc := [], in_txn := None\<rparr>))
     \<and> (\<exists>s'. final (txn_commit wal_write too_long s) = Some s' \<and>
              ((\<exists>r. Wal_write r \<in> set (drop (length (trace s)) (trace s')))
                 \<longleftrightarrow> tuple_changed t \<and> \<not> temporary sp))"
  using assms
  by (auto simp: txn_commit_def txn_finish_def emit_def trigger_run_def port_send_tuple_def Let_def
           split: option.splits)

theorem txn_commit_order_witness:
  "txn_commit (\<lambda>_. 0) False (fiber0\<lparr>in_txn := Some txn1\<rparr>) =
     Returned (fiber0\<lparr>trace := [Wal_write (row txn1), Trigger_run 21, Trigger_run 22,
                                 Port_add_tuple 110, Tuple_ref 109 (- 1),
                                 Engine_txn_finish space0, Fiber_gc],
                       gc := [], in_txn := None\<rparr>)"
  using txn_commit_order [of "fiber0\<lparr>in_txn := Some txn1\<rparr>" txn1 space0 "\<lambda>_. 0" False]
  by (simp add: fiber0_def txn1_def space0_def tuple_changed_def)

text \<open>
  C3: \<open>txn_rollback\<close> returns at once when the slot is empty.  With a live
  transaction and a changed tuple it calls the engine's
  \<open>replace(new_tuple, old_tuple, DUP_INSERT)\<close> on the transaction's space, runs
  the \<open>on_rollback\<close> triggers and drops the reference on \<open>new_tuple\<close>; with
  or without a changed tuple it then frees the region and clears the slot.
  Hence \<open>begin; replace; rollback\<close> leaves the engine as it was before
  \<open>begin\<close>: when the replace raised (the engine changed nothing), and when it
  returned and the engine's forced insert of the displaced tuple reinstates the
  state it replaced.
\<close>

theorem txn_rollback_spec:
  "(in_txn s = None \<longrightarrow> txn_rollback rep s = Returned s) \<and>
   (in_txn s = Some t \<and> \<not> tuple_changed t \<longrightarrow>
      txn_rollback rep s =
        Returned (s\<lparr>trace := trace s @ [Fiber_gc], gc := [], in_txn := None\<rparr>)) \<and>
   (in_txn s = Some t \<and> tuple_changed t \<and> txn_space t = Some sp \<and>
    rep (engine s) sp (new_tuple t) (old_tuple t) DUP_INSERT = Inr (d, e) \<longrightarrow>
      txn_rollback rep s =
        Returned (s\<lparr>engine := e,
                    trace := trace s
                      @ [Space_replace sp (new_tuple t) (old_tuple t) DUP_INSERT]
                      @ map Trigger_run (on_rollback t)
                      @ (case new_tuple t of Some n \<Rightarrow> [Tuple_ref n (- 1)] | None \<Rightarrow> [])
                      @ [Fiber_gc],
                    gc := [], in_txn := None\<rparr>)) \<and>
   (in_txn s = None \<and> (old \<noteq> None \<or> new \<noteq> None) \<and>
    rep (engine s) sp old new mode = Inr (d, e1) \<and> (new \<noteq> None \<or> d \<noteq> None) \<and>
    rep e1 sp new d DUP_INSERT = Inr (d', engine s) \<longrightarrow>
      (\<exists>s1 s2 s3. txn_begin s = Returned s1 \<and>
         txn_replace rep sp old new mode s1 = Returned s2 \<and>
         txn_rollback rep s2 = Returned s3 \<and>
         engine s3 = engine s \<and> in_txn s3 = None \<and> gc s3 = [])) \<and>
   (in_txn s = None \<and> (old \<noteq> None \<or> new \<noteq> None) \<and>
    rep (engine s) sp old new mode = Inl err \<longrightarrow>
      (\<exists>s1 s2 s3. txn_begin s = Returned s1 \<and>
         txn_replace rep sp old new mode s1 = Raised (Engine_error err) s2 \<and>
         txn_rollback rep s2 = Returned s3 \<and>
         engine s3 = engine s \<and> in_txn s3 = None \<and> gc s3 = []))"
  by (auto simp: txn_rollback_def txn_begin_def txn_replace_def emit_def trigger_run_def
                 tuple_changed_def region_alloc0_txn_def
           split: option.splits)

theorem txn_rollback_spec_witness:
  "txn_rollback (index_replace key100) fiber0 = Returned fiber0 \<and>
   txn_rollback (index_replace key100) (fiber0\<lparr>in_txn := Some region_alloc0_txn\<rparr>) =
     Returned (fiber0\<lparr>trace := [Fiber_gc], gc := [], in_txn := None\<rparr>) \<and>
   txn_rollback (index_replace key100)
       (fiber0\<lparr>in_txn := Some txn1, engine := index2\<rparr>) =
     Returned (fiber0\<lparr>engine := index1,
                 trace := [Space_replace space0 (Some 110) (Some 109) DUP_INSERT,
                           Trigger_run 31, Tuple_ref 110 (- 1), Fiber_gc],
                 gc := [], in_txn := None\<rparr>) \<and>
   (\<exists>s1 s2 s3. txn_begin (fiber0\<lparr>engine := index1\<rparr>) = Returned s1 \<and>
      txn_replace (index_replace key100) space0 (Some 109) (Some 110) DUP_REPLACE s1
        = Returned s2 \<and>
      txn_rollback (index_replace key100) s2 = Returned s3 \<and>
      engine s3 = index1 \<and> in_txn s3 = None \<and> gc s3 = []) \<and>
   (\<exists>s1 s2 s3. txn_begin (fiber0\<lparr>engine := index1\<rparr>) = Returned s1 \<and>
      txn_replace (index_replace key100) space0 None (Some 110) DUP_INSERT s1
        = Raised (Engine_error ER_TUPLE_FOUND) s2 \<and>
      txn_rollback (index_replace key100) s2 = Returned s3 \<and>
      engine s3 = index1 \<and> in_txn s3 = None \<and> gc s3 = [])"
proof -
  let ?R = "index_replace key100"
  have undo: "?R index2 space0 (Some 110) (Some 109) DUP_INSERT = Inr (Some 110, index1)"
    by (simp add: index_replace_def key100_def space0_def index1_def index2_def)
  have forth: "?R index1 space0 (Some 109) (Some 110) DUP_REPLACE = Inr (Some 109, index2)"
    by (simp add: index_replace_def key100_def space0_def index1_def index2_def)
  have clash: "?R index1 space0 None (Some 110) DUP_INSERT = Inl ER_TUPLE_FOUND"
    by (simp add: index_replace_def key100_def space0_def index1_def index2_def)
  show ?thesis
    using txn_rollback_spec [where s = fiber0 and rep = ?R]
          txn_rollback_spec [where s = "fiber0\<lparr>in_txn := Some region_alloc0_txn\<rparr>"
                               and t = region_alloc0_txn and rep = ?R]
          txn_rollback_spec [where s = "fiber0\<lparr>in_txn := Some txn1, engine := index2\<rparr>"
                               and t = txn1 and rep = ?R and sp = space0
                               and d = "Some 110" and e = index1]
          txn_rollback_spec [where s = "fiber0\<lparr>engine := index1\<rparr>" and rep = ?R
                               and old = "Some 109" and new = "Some 110" and sp = space0
                               and mode = DUP_REPLACE and d = "Some 109" and ?e1.0 = index2
                               and d' = "Some 110"]
          txn_rollback_spec [where s = "fiber0\<lparr>engine := index1\<rparr>" and rep = ?R
                               and old = None and new = "Some 110" and sp = space0
                               and mode = DUP_INSERT and err = ER_TUPLE_FOUND]
          undo forth clash
    by (simp add: fiber0_def txn1_def region_alloc0_txn_def tuple_changed_def)
qed

text \<open>
  C8: when \<open>wal_write\<close> returns non-zero, \<open>txn_commit\<close> raises
  \<open>ER_WAL_IO\<close> right after the write (and its too-long warning): no
  \<open>on_commit\<close> trigger has run, nothing went to the port, \<open>txn_finish\<close> did
  not run, and the transaction is still the fiber's current one.  The
  \<open>txn_rollback\<close> that the caller then issues hands the engine
  \<open>replace(new_tuple, old_tuple, DUP_INSERT)\<close> and clears the slot, so that
  \<open>begin; replace; add_redo; commit\<close> with a failing write, followed by
  \<open>rollback\<close>, ends in the engine state from before \<open>begin\<close>.
\<close>

theorem txn_commit_wal_failure:
  "(in_txn s = Some t \<and> tuple_changed t \<and> txn_space t = Some sp \<and> \<not> temporary sp \<and>
    (recovery_wal_mode s = WAL_NONE \<or> row t \<noteq> None) \<and> wal_write (row t) \<noteq> 0 \<longrightarrow>
      (\<exists>s'. txn_commit wal_write too_long s = Raised ER_WAL_IO s' \<and>
            s' = s\<lparr>trace := trace s @ [Wal_write (row t)]
                      @ (case row t of
                           Some r \<Rightarrow> if too_long then [Say_warn_too_long (row_type r)] else []
                         | None \<Rightarrow> [])\<rparr> \<and>
            in_txn s' = Some t \<and>
            (\<forall>d e. rep (engine s) sp (new_tuple t) (old_tuple t) DUP_INSERT = Inr (d, e) \<longrightarrow>
               (\<exists>s''. txn_rollback rep s' = Returned s'' \<and>
                      engine s'' = e \<and> in_txn s'' = None \<and> gc s'' = [])))) \<and>
   (in_txn s = None \<and> (old \<noteq> None \<or> new \<noteq> None) \<and>
    rep (engine s) sp old new mode = Inr (d, e1) \<and> (new \<noteq> None \<or> d \<noteq> None) \<and>
    rep e1 sp new d DUP_INSERT = Inr (d', engine s) \<and>
    \<not> temporary sp \<and> (\<forall>r. wal_write r \<noteq> 0) \<longrightarrow>
      (\<exists>s1 s2 s3 s4 s5.
         txn_begin s = Returned s1 \<and>
         txn_replace rep sp old new mode s1 = Returned s2 \<and>
         txn_add_redo req s2 = Returned s3 \<and>
         txn_commit wal_write too_long s3 = Raised ER_WAL_IO s4 \<and>
         in_txn s4 = in_txn s3 \<and> in_txn s4 \<noteq> None \<and> engine s4 = e1 \<and>
         txn_rollback rep s4 = Returned s5 \<and>
         engine s5 = engine s \<and> in_txn s5 = None \<and> gc s5 = []))"
  by (auto simp: txn_commit_def txn_rollback_def txn_begin_def txn_replace_def txn_add_redo_def
                 emit_def trigger_run_def tuple_changed_def region_alloc0_txn_def Let_def
           split: option.splits)

theorem txn_commit_wal_failure_witness:
  "txn_commit (\<lambda>_. - 1) True (fiber0\<lparr>in_txn := Some txn1, engine := index2\<rparr>) =
     Raised ER_WAL_IO (fiber0\<lparr>in_txn := Some txn1, engine := index2,
                          trace := [Wal_write (row txn1), Say_warn_too_long 2]\<rparr>) \<and>
   txn_rollback (index_replace key100)
       (fiber0\<lparr>in_txn := Some txn1, engine := index2,
                trace := [Wal_write (row txn1), Say_warn_too_long 2]\<rparr>) =
     Returned (fiber0\<lparr>engine := index1,
                 trace := [Wal_write (row txn1), Say_warn_too_long 2,
                           Space_replace space0 (Some 110) (Some 109) DUP_INSERT,
                           Trigger_run 31, Tuple_ref 110 (- 1), Fiber_gc],
                 gc := [], in_txn := None\<rparr>) \<and>
   (\<exists>s1 s2 s3 s4 s5.
      txn_begin (fiber0\<lparr>engine := index1\<rparr>) = Returned s1 \<and>
      txn_replace (index_replace key100) space0 (Some 109) (Some 110) DUP_REPLACE s1
        = Returned s2 \<and>
      txn_add_redo request1 s2 = Returned s3 \<and>
      txn_commit (\<lambda>_. - 1) True s3 = Raised ER_WAL_IO s4 \<and>
      in_txn s4 = in_txn s3 \<and> in_txn s4 \<noteq> None \<and> engine s4 = index2 \<and>
      txn_rollback (index_replace key100) s4 = Returned s5 \<and>
      engine s5 = index1 \<and> in_txn s5 = None \<and> gc s5 = [])"
proof -
  let ?R = "index_replace key100"
  have undo: "?R index2 space0 (Some 110) (Some 109) DUP_INSERT = Inr (Some 110, index1)"
    by (simp add: index_replace_def key100_def space0_def index1_def index2_def)
  have forth: "?R index1 space0 (Some 109) (Some 110) DUP_REPLACE = Inr (Some 109, index2)"
    by (simp add: index_replace_def key100_def space0_def index1_def index2_def)
  have pre: "\<not> temporary space0" "tuple_changed txn1" "txn_space txn1 = Some space0"
    "row txn1 \<noteq> None"
    by (simp_all add: space0_def txn1_def tuple_changed_def)
  have rb: "txn_rollback ?R
       (fiber0\<lparr>in_txn := Some txn1, engine := index2,
                trace := [Wal_write (row txn1), Say_warn_too_long 2]\<rparr>) =
     Returned (fiber0\<lparr>engine := index1,
                 trace := [Wal_write (row txn1), Say_warn_too_long 2,
                           Space_replace space0 (Some 110) (Some 109) DUP_INSERT,
                           Trigger_run 31, Tuple_ref 110 (- 1), Fiber_gc],
                 gc := [], in_txn := None\<rparr>)"
    using undo pre
    by (simp add: txn_rollback_def emit_def trigger_run_def fiber0_def txn1_def)
  show ?thesis
    using txn_commit_wal_failure [where s = "fiber0\<lparr>in_txn := Some txn1, engine := index2\<rparr>"
                                    and t = txn1 and sp = space0 and wal_write = "\<lambda>_. - 1"
                                    and too_long = True and rep = ?R]
          txn_commit_wal_failure [where s = "fiber0\<lparr>engine := index1\<rparr>" and rep = ?R
                                    and old = "Some 109" and new = "Some 110" and sp = space0
                                    and mode = DUP_REPLACE and d = "Some 109" and ?e1.0 = index2
                                    and d' = "Some 110" and wal_write = "\<lambda>_. - 1"
                                    and too_long = True and req = request1]
          undo forth pre rb
    by (simp add: fiber0_def txn1_def)
qed

section \<open>Properties of the cursor\<close>

subsection \<open>The window and the marker scan\<close>

text \<open>
  Shifting a byte into the magic gives what the four bytes one place further on
  read as.  So the loop, started on the four bytes at an offset, stops behind
  the first row marker at or after that offset, and runs to the end of the file
  when there is none.
\<close>

lemma drop8_byte: "drop_bit 8 (ucast (a :: byte) :: log_magic_t) = 0"
  by (rule bit_word_eqI) (auto simp: bit_simps dest: bit_imp_le_length)

lemma drop8_push: "k \<le> 16 \<Longrightarrow>
   drop_bit 8 (push_bit (8 + k) (ucast (b :: byte)) :: log_magic_t) = push_bit k (ucast b)"
  by (rule bit_word_eqI) (auto simp: bit_simps dest: bit_imp_le_length)

lemma slide_le: "slide (le_word [a, b, c, d]) e = le_word [b, c, d, e]"
  using drop8_push [of 0 b] drop8_push [of 8 c] drop8_push [of 16 d]
  by (simp add: slide_def drop8_byte ac_simps)

lemma take4_drop:
  assumes "q + 4 \<le> length f"
  shows "take 4 (drop q f) = [f ! q, f ! (q + 1), f ! (q + 2), f ! (q + 3)]"
proof -
  have "length (take 4 (drop q f)) = 4" using assms by simp
  moreover have "\<And>k. k < 4 \<Longrightarrow> take 4 (drop q f) ! k = f ! (q + k)"
    using assms by simp
  ultimately show ?thesis
    by (auto simp: list_eq_iff_nth_eq nth_Cons' less_Suc_eq numeral_eq_Suc add.commute)
qed

lemma slide_window:
  assumes "q + 5 \<le> length f"
  shows "slide (window f q) (f ! (q + 4)) = window f (Suc q)"
proof -
  have a: "take 4 (drop q f) = [f ! q, f ! (q + 1), f ! (q + 2), f ! (q + 3)]"
    using assms by (intro take4_drop) simp
  have b: "take 4 (drop (Suc q) f) = [f ! (q + 1), f ! (q + 2), f ! (q + 3), f ! (q + 4)]"
    using take4_drop [of "Suc q" f] assms by (simp add: numeral_eq_Suc)
  show ?thesis
    unfolding window_def a b by (rule slide_le)
qed

lemma find_magic_hit: "find_magic row_marker_v11 rest pos = (True, pos)"
  by (cases rest) simp_all

lemma find_magic_window:
  assumes "q + 4 \<le> length f"
  shows "find_magic (window f q) (drop (q + 4) f) (q + 4) =
           (if window f q = row_marker_v11 then (True, q + 4)
            else if q + 4 = length f then (False, length f)
            else find_magic (window f (Suc q)) (drop (Suc q + 4) f) (Suc q + 4))"
proof (cases "q + 4 = length f")
  case True
  then show ?thesis by (simp add: find_magic_hit)
next
  case False
  with assms have lt: "q + 4 < length f" by simp
  have d: "drop (q + 4) f = f ! (q + 4) # drop (Suc q + 4) f"
    using Cons_nth_drop_Suc [OF lt] by simp
  from lt have "q + 5 \<le> length f" by simp
  from slide_window [OF this] show ?thesis
    using False by (simp add: d)
qed

lemma find_magic_found:
  assumes "m + 4 \<le> length f" and "q \<le> m"
      and "\<forall>j. q \<le> j \<and> j < m \<longrightarrow> window f j \<noteq> row_marker_v11"
      and "window f m = row_marker_v11"
  shows "find_magic (window f q) (drop (q + 4) f) (q + 4) = (True, m + 4)"
  using assms
proof (induction "m - q" arbitrary: q)
  case 0
  then have "q = m" by simp
  with 0 show ?case by (simp add: find_magic_hit)
next
  case (Suc k)
  then have lt: "q < m" by simp
  with Suc.prems have ne: "window f q \<noteq> row_marker_v11" by simp
  have "find_magic (window f (Suc q)) (drop (Suc q + 4) f) (Suc q + 4) = (True, m + 4)"
    using Suc.hyps Suc.prems lt by (intro Suc.hyps(1)) auto
  with ne lt Suc.prems show ?case
    by (subst find_magic_window) auto
qed

lemma find_magic_none:
  assumes "q + 4 \<le> length f"
      and "\<forall>j. q \<le> j \<and> j + 4 \<le> length f \<longrightarrow> window f j \<noteq> row_marker_v11"
  shows "find_magic (window f q) (drop (q + 4) f) (q + 4) = (False, length f)"
  using assms
proof (induction "length f - q" arbitrary: q)
  case 0
  then show ?case by simp
next
  case (Suc k)
  from Suc.prems have ne: "window f q \<noteq> row_marker_v11" by simp
  show ?case
  proof (cases "q + 4 = length f")
    case True
    with ne Suc.prems show ?thesis by (subst find_magic_window) auto
  next
    case False
    have "find_magic (window f (Suc q)) (drop (Suc q + 4) f) (Suc q + 4) = (False, length f)"
      using Suc.hyps Suc.prems False by (intro Suc.hyps(1)) auto
    with ne False Suc.prems show ?thesis by (subst find_magic_window) auto
  qed
qed

lemma marker_free_iff: "marker_free bs d \<longleftrightarrow> (\<forall>j<d. window bs j \<noteq> row_marker_v11)"
  by (auto simp: marker_free_def list_all_iff)

lemma take_drop_append_mid:
  "j + n \<le> length xs \<Longrightarrow>
   take n (drop (length pre + j) (pre @ xs @ rest)) = take n (drop j xs)"
  by simp

lemma window_append:
  "j + 4 \<le> length xs \<Longrightarrow> window (pre @ xs @ rest) (length pre + j) = window xs j"
  by (simp add: window_def)

lemma all_interval_list: "(\<forall>j. a \<le> j \<and> j < b \<longrightarrow> P j) = list_all P [a..<b]"
  by (auto simp: list_all_iff)

lemma le_row_marker: "(le_word row_marker_bytes :: log_magic_t) = row_marker_v11"
  by (simp add: row_marker_bytes_def row_marker_v11_def)

lemma le_eof_marker: "(le_word eof_marker_bytes :: log_magic_t) = eof_marker_v11"
  by (simp add: eof_marker_bytes_def eof_marker_v11_def)

lemma eof_not_row: "eof_marker_v11 \<noteq> row_marker_v11"
  by (simp add: eof_marker_v11_def row_marker_v11_def)

subsection \<open>The row reader\<close>

text \<open>
  What the reader returns, by what the file holds at its position: a row when
  header and body are there and the region gives the memory, \<open>ROW_EOF\<close> when
  the header or the body is cut short or \<open>len\<close> is 0, NULL when the region
  gives nothing.
\<close>

lemma fread_ok: "0 < n \<Longrightarrow> pos + n \<le> length f \<Longrightarrow>
   fread f pos n = (Some (take n (drop pos f)), pos + n)"
  by (simp add: fread_def)

lemma header_len:
  "pos + 28 \<le> length f \<Longrightarrow>
   len (header_v11_of (take 28 (drop pos f))) = le_word (take 4 (drop (pos + 20) f))"
  by (simp add: header_v11_of_def take_drop min_def add.commute)

lemma row_reader_complete:
  assumes "pos + 28 \<le> length f"
      and "mlen = unat (le_word (take 4 (drop (pos + 20) f)) :: 32 word)"
      and "region_alloc (28 + mlen)" and "0 < mlen" and "pos + 28 + mlen \<le> length f"
  shows "row_reader_v11 region_alloc f pos = (Row (take (28 + mlen) (drop pos f)), pos + 28 + mlen)"
proof -
  have "take 28 (drop pos f) @ take mlen (drop (pos + 28) f) = take (28 + mlen) (drop pos f)"
    using take_add [of 28 mlen "drop pos f"] by (simp add: add.commute)
  then show ?thesis
    using assms by (simp add: row_reader_v11_def fread_ok header_len Let_def)
qed

lemma row_reader_short:
  assumes "pos + 28 \<le> length f"
      and "mlen = unat (le_word (take 4 (drop (pos + 20) f)) :: 32 word)"
      and "region_alloc (28 + mlen)" and "mlen = 0 \<or> length f < pos + 28 + mlen"
  shows "row_reader_v11 region_alloc f pos =
           (ROW_EOF, if mlen = 0 then pos + 28 else length f)"
  using assms by (auto simp: row_reader_v11_def fread_ok header_len Let_def fread_def)

lemma row_reader_no_memory:
  assumes "pos + 28 \<le> length f"
      and "mlen = unat (le_word (take 4 (drop (pos + 20) f)) :: 32 word)"
      and "\<not> region_alloc (28 + mlen)"
  shows "row_reader_v11 region_alloc f pos = (ROW_NULL, pos + 28)"
  using assms by (simp add: row_reader_v11_def fread_ok header_len Let_def)

lemma row_reader_no_header:
  assumes "length f < pos + 28"
  shows "row_reader_v11 region_alloc f pos = (ROW_EOF, max pos (length f))"
  using assms by (simp add: row_reader_v11_def fread_def)

lemma row_reader_pos: "row_reader_v11 a f pos = (r, pos') \<Longrightarrow> pos \<le> pos'"
  by (auto simp: row_reader_v11_def Let_def fread_def split: if_splits)

lemma row_reader_Row:
  assumes "row_reader_v11 a f pos = (Row r, pos')"
  shows "pos' = pos + length r \<and> r = take (length r) (drop pos f) \<and> 28 < length r \<and>
         pos' \<le> length f"
proof -
  from assms obtain m where m: "fread f pos 28 = (Some m, pos + 28)"
    by (auto simp: row_reader_v11_def Let_def split: prod.splits option.splits if_splits
             dest: fread_Some)
  define mlen where "mlen = unat (len (header_v11_of m))"
  from assms m obtain body where b: "fread f (pos + 28) mlen = (Some body, pos')" and r: "r = m @ body"
    by (auto simp: row_reader_v11_def Let_def mlen_def split: prod.splits option.splits if_splits)
  from fread_Some [OF m] have m': "m = take 28 (drop pos f)" "pos + 28 \<le> length f" by auto
  from fread_Some [OF b] have b': "body = take mlen (drop (pos + 28) f)"
    "pos' = pos + 28 + mlen" "pos + 28 + mlen \<le> length f" "0 < mlen" by auto
  have lm: "length m = 28" using m' by simp
  have lb: "length body = mlen" using b' by simp
  have "take 28 (drop pos f) @ take mlen (drop (pos + 28) f) = take (28 + mlen) (drop pos f)"
    using take_add [of 28 mlen "drop pos f"] by (simp add: add.commute)
  then have "r = take (length r) (drop pos f)"
    using r m'(1) b'(1) lm lb by simp
  then show ?thesis
    using b' lm lb r by simp
qed

lemma row_reader_any_crc:
  assumes "length hcrc = 4" and "length mid = 16" and "length lenb = 4" and "length dcrc = 4"
      and "unat (le_word lenb :: 32 word) = length body" and "body \<noteq> []"
      and "region_alloc (28 + length body)"
  shows "row_reader_v11 region_alloc (pre @ hcrc @ mid @ lenb @ dcrc @ body @ rest) (length pre)
           = (Row (hcrc @ mid @ lenb @ dcrc @ body), length pre + 28 + length body)"
proof -
  let ?f = "pre @ hcrc @ mid @ lenb @ dcrc @ body @ rest"
  have "take 4 (drop (length pre + 20) ?f) = lenb"
    using assms by simp
  then have l: "length body = unat (le_word (take 4 (drop (length pre + 20) ?f)) :: 32 word)"
    using assms by simp
  have pos: "0 < length body" using assms(6) by simp
  have fit: "length pre + 28 + length body \<le> length ?f" "length pre + 28 \<le> length ?f"
    using assms(1-4) by simp_all
  have "row_reader_v11 region_alloc ?f (length pre)
          = (Row (take (28 + length body) (drop (length pre) ?f)), length pre + 28 + length body)"
    using fit(2) l assms(7) pos fit(1) by (rule row_reader_complete)
  moreover have "take (28 + length body) (drop (length pre) ?f) = hcrc @ mid @ lenb @ dcrc @ body"
    using assms by simp
  ultimately show ?thesis by simp
qed

subsection \<open>One pass and one call\<close>

text \<open>
  A pass from \<open>restart\<close> is decided by the first row marker from where it
  starts and by what the row reader makes of the bytes behind that marker.
\<close>

lemma next_attempt_marker:
  assumes "start_pos i mo \<le> m" and "m + 4 \<le> length f"
      and "\<forall>j. start_pos i mo \<le> j \<and> j < m \<longrightarrow> window f j \<noteq> row_marker_v11"
      and "window f m = row_marker_v11"
  shows "next_attempt region_alloc f i mo =
     (let i2 = i\<lparr>fpos := m + 4,
                 said := said i
                   @ (if good_offset i \<noteq> m
                      then [Say_warn_skipped (int m - int (good_offset i)) (good_offset i)]
                      else [])
                   @ [Say_debug_magic_found m]\<rparr>
      in case row_reader_v11 region_alloc f (m + 4) of
           (ROW_EOF, pos2) \<Rightarrow> Done None (cursor_eof f (i2\<lparr>fpos := pos2\<rparr>))
         | (ROW_NULL, pos2) \<Rightarrow>
             Restart (i2\<lparr>fpos := pos2, said := said i2 @ [Say_warn_failed_to_read_row]\<rparr>) m
         | (Row r, pos2) \<Rightarrow>
             Done (Some r) (i2\<lparr>fpos := pos2, good_offset := pos2, row_count := row_count i + 1\<rparr>))"
proof -
  let ?p = "start_pos i mo"
  have rd: "fread f ?p 4 = (Some (take 4 (drop ?p f)), ?p + 4)"
    using assms by (intro fread_ok) auto
  have fm: "find_magic (le_word (take 4 (drop ?p f))) (drop (?p + 4) f) (?p + 4) = (True, m + 4)"
    using find_magic_found [of m f ?p] assms by (simp add: window_def)
  show ?thesis
    using rd fm
    by (cases "0 < mo")
       (auto simp: next_attempt_def start_pos_def Let_def say_def
             split: prod.splits row.splits)
qed

lemma next_attempt_no_marker:
  assumes "start_pos i mo + 4 \<le> length f"
      and "\<forall>j. start_pos i mo \<le> j \<and> j + 4 \<le> length f \<longrightarrow> window f j \<noteq> row_marker_v11"
  shows "next_attempt region_alloc f i mo =
           Done None (cursor_eof f (i\<lparr>fpos := length f,
                                      said := said i @ [Say_debug_eof_looking_for_magic]\<rparr>))"
proof -
  let ?p = "start_pos i mo"
  have rd: "fread f ?p 4 = (Some (take 4 (drop ?p f)), ?p + 4)"
    using assms by (intro fread_ok) auto
  have fm: "find_magic (le_word (take 4 (drop ?p f))) (drop (?p + 4) f) (?p + 4) = (False, length f)"
    using find_magic_none [of ?p f] assms by (simp add: window_def)
  show ?thesis
    using rd fm
    by (cases "0 < mo") (auto simp: next_attempt_def start_pos_def Let_def say_def)
qed

lemma next_attempt_short_magic:
  assumes "length f < start_pos i mo + 4"
  shows "next_attempt region_alloc f i mo =
           Done None (cursor_eof f (i\<lparr>fpos := max (start_pos i mo) (length f)\<rparr>))"
  using assms
  by (cases "0 < mo") (auto simp: next_attempt_def start_pos_def Let_def fread_def)

lemma next_restart_Done:
  "next_attempt a f i mo = Done r i' \<Longrightarrow> next_restart a f i mo = (r, i')"
  by (subst next_restart.simps) simp

lemma next_restart_Restart:
  "next_attempt a f i mo = Restart i' mo' \<Longrightarrow> next_restart a f i mo = next_restart a f i' mo'"
  by (subst next_restart.simps) simp

lemma next_restart_resume:
  assumes "0 < m"
  shows "next_restart a f i m = next_restart a f (i\<lparr>fpos := m + 1\<rparr>) 0"
proof -
  have eq: "next_attempt a f i m = next_attempt a f (i\<lparr>fpos := m + 1\<rparr>) 0"
    using assms by (simp add: next_attempt_def)
  have "next_restart a f i m =
          (case next_attempt a f i m of
             Done r i1 \<Rightarrow> (r, i1)
           | Restart i1 marker_offset1 \<Rightarrow> next_restart a f i1 marker_offset1)"
    by (rule next_restart.simps)
  also have "\<dots> =
          (case next_attempt a f (i\<lparr>fpos := m + 1\<rparr>) 0 of
             Done r i1 \<Rightarrow> (r, i1)
           | Restart i1 marker_offset1 \<Rightarrow> next_restart a f i1 marker_offset1)"
    by (simp only: eq)
  also have "\<dots> = next_restart a f (i\<lparr>fpos := m + 1\<rparr>) 0"
    by (rule next_restart.simps [symmetric])
  finally show ?thesis .
qed

lemma next_first_marker:
  assumes "\<not> eof_read i" and "fpos i \<le> m"
      and "\<forall>j. fpos i \<le> j \<and> j < m \<longrightarrow> window f j \<noteq> row_marker_v11"
      and "window f m = row_marker_v11"
      and "mlen = unat (le_word (take 4 (drop (m + 24) f)) :: 32 word)"
      and "0 < mlen" and "m + 32 + mlen \<le> length f" and "region_alloc (28 + mlen)"
  shows "xlog_cursor_v11_next region_alloc f i =
     Some (Some (take (28 + mlen) (drop (m + 4) f)),
           i\<lparr>fpos := m + 32 + mlen, good_offset := m + 32 + mlen,
             row_count := row_count i + 1,
             said := said i
               @ (if good_offset i \<noteq> m
                  then [Say_warn_skipped (int m - int (good_offset i)) (good_offset i)]
                  else [])
               @ [Say_debug_magic_found m]\<rparr>)"
proof -
  have rr: "row_reader_v11 region_alloc f (m + 4) =
              (Row (take (28 + mlen) (drop (m + 4) f)), m + 4 + 28 + mlen)"
    using assms by (intro row_reader_complete) (auto simp: add.assoc)
  have "next_attempt region_alloc f i 0 =
     Done (Some (take (28 + mlen) (drop (m + 4) f)))
       (i\<lparr>fpos := m + 32 + mlen, good_offset := m + 32 + mlen,
          row_count := row_count i + 1,
          said := said i
            @ (if good_offset i \<noteq> m
               then [Say_warn_skipped (int m - int (good_offset i)) (good_offset i)]
               else [])
            @ [Say_debug_magic_found m]\<rparr>)"
    using assms rr
    by (subst next_attempt_marker [where m = m]) (auto simp: start_pos_def Let_def)
  from next_restart_Done [OF this] show ?thesis
    using assms(1) by (simp add: xlog_cursor_v11_next_def)
qed


lemma next_after_run:
  assumes f: "f = pre @ junk @ r @ rest" and fr: "framed_v11 r"
      and mf: "marker_free (junk @ r) (length junk)"
      and i: "\<not> eof_read i" "fpos i = length pre" "good_offset i = length pre"
      and al: "region_alloc (length r - 4)"
  shows "xlog_cursor_v11_next region_alloc f i =
     Some (Some (drop 4 r),
           i\<lparr>fpos := length pre + length junk + length r,
             good_offset := length pre + length junk + length r,
             row_count := row_count i + 1,
             said := said i
               @ (if junk \<noteq> [] then [Say_warn_skipped (int (length junk)) (length pre)] else [])
               @ [Say_debug_magic_found (length pre + length junk)]\<rparr>)"
proof -
  let ?m = "length pre + length junk"
  define mlen where "mlen = unat (le_word (take 4 (drop 24 r)) :: 32 word)"
  from fr have lr: "length r = 32 + mlen" and lr32: "32 < length r"
    and w0: "window r 0 = row_marker_v11"
    unfolding framed_v11_def mlen_def by blast+
  have "window ((pre @ junk) @ r @ rest) (length (pre @ junk) + 0) = window r 0"
    using lr32 by (intro window_append) simp
  then have wm: "window f ?m = row_marker_v11"
    by (simp add: f w0)
  have nm: "\<forall>j. fpos i \<le> j \<and> j < ?m \<longrightarrow> window f j \<noteq> row_marker_v11"
  proof (intro allI impI)
    fix j assume j: "fpos i \<le> j \<and> j < ?m"
    define k where "k = j - length pre"
    have k: "j = length pre + k" "k < length junk"
      using j i(2) unfolding k_def by linarith+
    have "window (pre @ (junk @ r) @ rest) (length pre + k) = window (junk @ r) k"
      using k(2) lr32 by (intro window_append) simp
    then have "window f j = window (junk @ r) k"
      by (simp add: f k(1))
    moreover have "window (junk @ r) k \<noteq> row_marker_v11"
      using mf k(2) by (simp add: marker_free_iff)
    ultimately show "window f j \<noteq> row_marker_v11" by simp
  qed
  have "take 4 (drop (length (pre @ junk) + 24) ((pre @ junk) @ r @ rest)) = take 4 (drop 24 r)"
    using lr32 by (intro take_drop_append_mid) simp
  then have "take 4 (drop (?m + 24) f) = take 4 (drop 24 r)"
    by (simp add: f)
  then have ln: "mlen = unat (le_word (take 4 (drop (?m + 24) f)) :: 32 word)"
    unfolding mlen_def by simp
  have "take (28 + mlen) (drop (length (pre @ junk) + 4) ((pre @ junk) @ r @ rest))
          = take (28 + mlen) (drop 4 r)"
    by (intro take_drop_append_mid) (simp add: lr)
  moreover have "take (28 + mlen) (drop 4 r) = drop 4 r"
    by (intro take_all) (simp add: lr)
  ultimately have pay: "take (28 + mlen) (drop (?m + 4) f) = drop 4 r"
    by (simp add: f)
  have pos: "0 < mlen" using lr lr32 by linarith
  have fit: "?m + 32 + mlen \<le> length f"
    by (simp add: f lr)
  have al': "region_alloc (28 + mlen)"
    using al by (simp add: lr)
  have le: "fpos i \<le> ?m" by (simp add: i(2))
  note step = next_first_marker [where region_alloc = region_alloc and i = i and f = f
                                   and m = ?m and mlen = mlen,
                                 OF i(1) le nm wm ln pos fit al']
  have e1: "?m + 32 + mlen = length pre + length junk + length r"
    by (simp add: lr)
  show ?thesis
    unfolding step pay e1 by (simp add: i(3))
qed

lemma next_framed:
  assumes "framed_v11 r" and "\<not> eof_read i" and "fpos i = length pre"
      and "good_offset i = length pre" and "region_alloc (length r - 4)"
  shows "xlog_cursor_v11_next region_alloc (pre @ r @ rest) i =
     Some (Some (drop 4 r),
           i\<lparr>fpos := length pre + length r, good_offset := length pre + length r,
             row_count := row_count i + 1,
             said := said i @ [Say_debug_magic_found (length pre)]\<rparr>)"
proof -
  have mf0: "marker_free ([] @ r) (length ([] :: byte list))" by (simp add: marker_free_def)
  have f1: "pre @ r @ rest = pre @ [] @ r @ rest" by simp
  show ?thesis
    using next_after_run [where region_alloc = region_alloc and junk = "[]" and pre = pre
                            and r = r and rest = rest and f = "pre @ r @ rest" and i = i,
                          OF f1 assms(1) mf0 assms(2) assms(3) assms(4) assms(5)]
    by simp
qed

lemma next_short_body:
  assumes "\<not> eof_read i" and "good_offset i \<le> fpos i" and "fpos i \<le> m"
      and "\<forall>j. fpos i \<le> j \<and> j < m \<longrightarrow> window f j \<noteq> row_marker_v11"
      and "window f m = row_marker_v11" and "m + 32 \<le> length f"
      and "mlen = unat (le_word (take 4 (drop (m + 24) f)) :: 32 word)"
      and "region_alloc (28 + mlen)" and "mlen = 0 \<or> length f < m + 32 + mlen"
  shows "xlog_cursor_v11_next region_alloc f i =
     Some (None,
           i\<lparr>fpos := (if mlen = 0 then m + 32 else length f),
             said := said i
               @ (if good_offset i \<noteq> m
                  then [Say_warn_skipped (int m - int (good_offset i)) (good_offset i)]
                  else [])
               @ [Say_debug_magic_found m]\<rparr>)"
proof -
  let ?i2 = "i\<lparr>fpos := m + 4,
                 said := said i
                   @ (if good_offset i \<noteq> m
                      then [Say_warn_skipped (int m - int (good_offset i)) (good_offset i)]
                      else [])
                   @ [Say_debug_magic_found m]\<rparr>"
  let ?q = "if mlen = 0 then m + 4 + 28 else length f"
  have rr: "row_reader_v11 region_alloc f (m + 4) = (ROW_EOF, ?q)"
    using assms by (intro row_reader_short) (auto simp: add.assoc)
  have na: "next_attempt region_alloc f i 0 = Done None (cursor_eof f (?i2\<lparr>fpos := ?q\<rparr>))"
    using assms rr
    by (subst next_attempt_marker [where m = m]) (auto simp: start_pos_def Let_def)
  have "fpos (?i2\<lparr>fpos := ?q\<rparr>) \<noteq> good_offset (?i2\<lparr>fpos := ?q\<rparr>) + 4"
    using assms by auto
  then have "cursor_eof f (?i2\<lparr>fpos := ?q\<rparr>) = ?i2\<lparr>fpos := ?q\<rparr>"
    by (simp add: cursor_eof_def)
  with na have "next_attempt region_alloc f i 0 = Done None (?i2\<lparr>fpos := ?q\<rparr>)" by simp
  from next_restart_Done [OF this] show ?thesis
    using assms(1) by (simp add: xlog_cursor_v11_next_def add.assoc)
qed

lemma next_no_memory:
  assumes "\<not> eof_read i" and "fpos i \<le> m"
      and "\<forall>j. fpos i \<le> j \<and> j < m \<longrightarrow> window f j \<noteq> row_marker_v11"
      and "window f m = row_marker_v11" and "m + 32 \<le> length f"
      and "mlen = unat (le_word (take 4 (drop (m + 24) f)) :: 32 word)"
      and "\<not> region_alloc (28 + mlen)"
  shows "xlog_cursor_v11_next region_alloc f i =
     Some (next_restart region_alloc f
             (i\<lparr>fpos := m + 32,
                said := said i
                  @ (if good_offset i \<noteq> m
                     then [Say_warn_skipped (int m - int (good_offset i)) (good_offset i)]
                     else [])
                  @ [Say_debug_magic_found m, Say_warn_failed_to_read_row]\<rparr>) m)"
proof -
  have rr: "row_reader_v11 region_alloc f (m + 4) = (ROW_NULL, m + 4 + 28)"
    using assms by (intro row_reader_no_memory) (auto simp: add.assoc)
  have na: "next_attempt region_alloc f i 0 =
     Restart (i\<lparr>fpos := m + 32,
                said := said i
                  @ (if good_offset i \<noteq> m
                     then [Say_warn_skipped (int m - int (good_offset i)) (good_offset i)]
                     else [])
                  @ [Say_debug_magic_found m, Say_warn_failed_to_read_row]\<rparr>) m"
    using assms rr
    by (subst next_attempt_marker [where m = m]) (auto simp: start_pos_def Let_def)
  from next_restart_Restart [OF this] show ?thesis
    using assms(1) by (simp add: xlog_cursor_v11_next_def)
qed

lemma cursor_eof_cases:
  "(fpos i \<noteq> good_offset i + 4 \<longrightarrow> cursor_eof f i = i) \<and>
   (fpos i = good_offset i + 4 \<and> good_offset i + 4 \<le> length f \<longrightarrow>
      cursor_eof f i =
        (if window f (good_offset i) = eof_marker_v11
         then i\<lparr>fpos := good_offset i + 4, good_offset := good_offset i + 4, eof_read := True\<rparr>
         else if window f (good_offset i) = row_marker_v11
         then i\<lparr>fpos := good_offset i + 4\<rparr>
         else i\<lparr>fpos := good_offset i + 4,
                said := said i @ [Say_error_eof_marker_corrupt (window f (good_offset i))]\<rparr>))"
  by (auto simp: cursor_eof_def fread_ok window_def say_def Let_def)

lemma next_at_tail:
  assumes "\<not> eof_read i" and "fpos i = length pre" and "good_offset i = length pre"
  shows "xlog_cursor_v11_next region_alloc pre i = Some (None, i)"
    and "xlog_cursor_v11_next region_alloc (pre @ eof_marker_bytes) i =
           Some (None, i\<lparr>fpos := length pre + 4, good_offset := length pre + 4,
                        eof_read := True,
                        said := said i @ [Say_debug_eof_looking_for_magic]\<rparr>)"
proof -
  have "next_attempt region_alloc pre i 0 = Done None (cursor_eof pre (i\<lparr>fpos := length pre\<rparr>))"
    using assms next_attempt_short_magic [of pre i 0 region_alloc]
    by (simp add: start_pos_def)
  moreover have "cursor_eof pre (i\<lparr>fpos := length pre\<rparr>) = i"
    using assms by (simp add: cursor_eof_def)
  ultimately show "xlog_cursor_v11_next region_alloc pre i = Some (None, i)"
    using assms(1) by (simp add: xlog_cursor_v11_next_def next_restart_Done)
next
  let ?f = "pre @ eof_marker_bytes"
  have len: "length ?f = length pre + 4" by (simp add: eof_marker_bytes_def)
  have "take 4 eof_marker_bytes = eof_marker_bytes" by (simp add: eof_marker_bytes_def)
  then have w: "window ?f (length pre) = eof_marker_v11"
    by (simp add: window_def le_eof_marker)
  have "\<forall>j. start_pos i 0 \<le> j \<and> j + 4 \<le> length ?f \<longrightarrow> window ?f j \<noteq> row_marker_v11"
  proof (intro allI impI)
    fix j assume "start_pos i 0 \<le> j \<and> j + 4 \<le> length ?f"
    then have "j = length pre" using assms len by (simp add: start_pos_def)
    then show "window ?f j \<noteq> row_marker_v11" using w eof_not_row by simp
  qed
  then have "next_attempt region_alloc ?f i 0 =
           Done None (cursor_eof ?f (i\<lparr>fpos := length ?f,
                                      said := said i @ [Say_debug_eof_looking_for_magic]\<rparr>))"
    using assms len by (intro next_attempt_no_marker) (simp add: start_pos_def)
  moreover have "cursor_eof ?f (i\<lparr>fpos := length ?f,
                                      said := said i @ [Say_debug_eof_looking_for_magic]\<rparr>)
      = i\<lparr>fpos := length pre + 4, good_offset := length pre + 4, eof_read := True,
                        said := said i @ [Say_debug_eof_looking_for_magic]\<rparr>"
    using assms len w cursor_eof_cases [of "i\<lparr>fpos := length ?f,
                                      said := said i @ [Say_debug_eof_looking_for_magic]\<rparr>" ?f]
    by simp
  ultimately show "xlog_cursor_v11_next region_alloc ?f i =
           Some (None, i\<lparr>fpos := length pre + 4, good_offset := length pre + 4,
                        eof_read := True,
                        said := said i @ [Say_debug_eof_looking_for_magic]\<rparr>)"
    using assms(1) by (simp add: xlog_cursor_v11_next_def next_restart_Done)
qed

lemma next_at_end:
  assumes "\<not> eof_read i" and "length f < fpos i + 4" and "fpos i \<le> length f"
      and "length f \<noteq> good_offset i + 4"
  shows "xlog_cursor_v11_next region_alloc f i = Some (None, i\<lparr>fpos := length f\<rparr>)"
proof -
  have "next_attempt region_alloc f i 0 = Done None (cursor_eof f (i\<lparr>fpos := length f\<rparr>))"
    using next_attempt_short_magic [of f i 0 region_alloc] assms
    by (simp add: start_pos_def max_def)
  moreover have "cursor_eof f (i\<lparr>fpos := length f\<rparr>) = i\<lparr>fpos := length f\<rparr>"
    using assms by (auto simp: cursor_eof_def)
  ultimately show ?thesis
    using assms(1) by (simp add: xlog_cursor_v11_next_def next_restart_Done)
qed

lemma read_back:
  assumes "\<forall>r \<in> set recs. framed_v11 r" and "\<forall>n. region_alloc n" and "length recs < n"
      and "\<not> eof_read i" and "fpos i = length pre" and "good_offset i = length pre"
  shows "\<exists>i'. cursor_rows region_alloc
                 (pre @ concat recs @ (if sealed then eof_marker_bytes else [])) n i
               = (map (drop 4) recs, i') \<and>
              eof_read i' = sealed \<and>
              row_count i' = row_count i + length recs \<and>
              good_offset i' = length pre + length (concat recs) + (if sealed then 4 else 0)"
  using assms
proof (induction recs arbitrary: pre n i)
  case Nil
  then obtain k where n: "n = Suc k" by (cases n) auto
  note t1 = next_at_tail(1) [OF Nil.prems(4) Nil.prems(5) Nil.prems(6), of region_alloc]
  note t2 = next_at_tail(2) [OF Nil.prems(4) Nil.prems(5) Nil.prems(6), of region_alloc]
  show ?case
  proof (cases sealed)
    case True
    have "pre @ concat [] @ (if sealed then eof_marker_bytes else []) = pre @ eof_marker_bytes"
      using True by simp
    then show ?thesis
      unfolding n cursor_rows.simps using True Nil.prems(6) by (simp add: t2)
  next
    case False
    have "pre @ concat [] @ (if sealed then eof_marker_bytes else []) = pre"
      using False by simp
    then show ?thesis
      unfolding n cursor_rows.simps using False Nil.prems(4) Nil.prems(6) by (simp add: t1)
  qed
next
  case (Cons r rs)
  then obtain k where n: "n = Suc k" and k: "length rs < k" by (cases n) auto
  let ?tail = "if sealed then eof_marker_bytes else []"
  let ?f = "pre @ concat (r # rs) @ ?tail"
  let ?i1 = "i\<lparr>fpos := length pre + length r, good_offset := length pre + length r,
             row_count := row_count i + 1,
             said := said i @ [Say_debug_magic_found (length pre)]\<rparr>"
  have fr: "framed_v11 r" using Cons.prems by simp
  have f: "?f = pre @ [] @ r @ (concat rs @ ?tail)" by simp
  have mf: "marker_free ([] @ r) (length ([] :: byte list))" by (simp add: marker_free_def)
  have al: "region_alloc (length r - 4)" using Cons.prems by simp
  have step: "xlog_cursor_v11_next region_alloc ?f i = Some (Some (drop 4 r), ?i1)"
    using next_after_run [where region_alloc = region_alloc and junk = "[]" and pre = pre
                            and r = r and rest = "concat rs @ ?tail" and f = ?f and i = i,
                          OF f fr mf Cons.prems(4) Cons.prems(5) Cons.prems(6) al]
    by simp
  have f2: "?f = (pre @ r) @ concat rs @ ?tail" by simp
  have "\<exists>i'. cursor_rows region_alloc ((pre @ r) @ concat rs @ ?tail) k ?i1
               = (map (drop 4) rs, i') \<and>
              eof_read i' = sealed \<and>
              row_count i' = row_count ?i1 + length rs \<and>
              good_offset i' = length (pre @ r) + length (concat rs) + (if sealed then 4 else 0)"
    using Cons.prems k by (intro Cons.IH) auto
  then obtain i' where i': "cursor_rows region_alloc ?f k ?i1 = (map (drop 4) rs, i')"
      "eof_read i' = sealed" "row_count i' = row_count ?i1 + length rs"
      "good_offset i' = length (pre @ r) + length (concat rs) + (if sealed then 4 else 0)"
    unfolding f2 by blast
  show ?case
    unfolding n cursor_rows.simps step using i' by simp
qed

subsection \<open>What a call keeps\<close>

text \<open>
  A cursor whose \<open>good_offset\<close> is not ahead of the stream stays so through
  every pass and every call, and \<open>good_offset\<close> does not go back.
\<close>

lemma cursor_eof_mono:
  assumes "good_offset i \<le> fpos i"
  shows "good_offset i \<le> good_offset (cursor_eof f i) \<and>
         good_offset (cursor_eof f i) \<le> fpos (cursor_eof f i) \<and>
         (good_offset (cursor_eof f i) = good_offset i \<and> eof_read (cursor_eof f i) = eof_read i \<or>
          good_offset (cursor_eof f i) = good_offset i + 4 \<and> eof_read (cursor_eof f i) \<and>
          window f (good_offset i) = eof_marker_v11) \<and>
         row_count (cursor_eof f i) = row_count i"
  using assms
  by (auto simp: cursor_eof_def fread_def say_def Let_def window_def)

lemma next_attempt_ok:
  assumes g: "good_offset i \<le> start_pos i mo"
  shows "attempt_ok f i (next_attempt a f i mo)"
proof -
  define i1 where "i1 = (if mo > 0 then i\<lparr>fpos := mo + 1\<rparr> else i)"
  have i1: "fpos i1 = start_pos i mo" "good_offset i1 = good_offset i" "eof_read i1 = eof_read i"
    "row_count i1 = row_count i"
    by (simp_all add: i1_def start_pos_def)
  obtain x pos where r1: "fread f (fpos i1) 4 = (x, pos)" by (cases "fread f (fpos i1) 4")
  show ?thesis
  proof (cases x)
    case None
    with r1 fread_None [of f "fpos i1" 4 pos] have p: "fpos i1 \<le> pos" by simp
    have na: "next_attempt a f i mo = Done None (cursor_eof f (i1\<lparr>fpos := pos\<rparr>))"
      using r1 None by (simp add: next_attempt_def i1_def Let_def)
    have "good_offset (i1\<lparr>fpos := pos\<rparr>) \<le> fpos (i1\<lparr>fpos := pos\<rparr>)"
      using p g i1 by simp
    from cursor_eof_mono [OF this, of f] show ?thesis
      unfolding na attempt_ok_def using i1 by auto
  next
    case (Some bs)
    with r1 have r1': "fread f (fpos i1) 4 = (Some bs, pos)" by simp
    from fread_Some [OF r1'] have p: "pos = fpos i1 + 4" by simp
    obtain found pos1 where r2: "find_magic (le_word bs) (drop pos f) pos = (found, pos1)"
      by (cases "find_magic (le_word bs) (drop pos f) pos")
    from find_magic_pos [OF r2] have p1: "pos \<le> pos1" by simp
    show ?thesis
    proof (cases found)
      case False
      let ?i = "say [Say_debug_eof_looking_for_magic] (i1\<lparr>fpos := pos1\<rparr>)"
      have na: "next_attempt a f i mo = Done None (cursor_eof f ?i)"
        using r1' r2 False by (simp add: next_attempt_def i1_def Let_def)
      have "good_offset ?i \<le> fpos ?i"
        using p p1 g i1 by (simp add: say_def)
      from cursor_eof_mono [OF this, of f] show ?thesis
        unfolding na attempt_ok_def using i1 by (auto simp: say_def)
    next
      case True
      define i2 where "i2 = say ((if good_offset i1 \<noteq> pos1 - 4
                              then [Say_warn_skipped (int (pos1 - 4) - int (good_offset i1))
                                      (good_offset i1)]
                              else [])
                             @ [Say_debug_magic_found (pos1 - 4)]) (i1\<lparr>fpos := pos1\<rparr>)"
      have i2: "good_offset i2 = good_offset i" "eof_read i2 = eof_read i"
        "row_count i2 = row_count i"
        by (simp_all add: i2_def say_def i1)
      obtain rw pos2 where r3: "row_reader_v11 a f pos1 = (rw, pos2)"
        by (cases "row_reader_v11 a f pos1")
      from row_reader_pos [OF r3] have p2: "pos1 \<le> pos2" .
      show ?thesis
      proof (cases rw)
        case ROW_EOF
        have na: "next_attempt a f i mo = Done None (cursor_eof f (i2\<lparr>fpos := pos2\<rparr>))"
          using r1' r2 True r3 ROW_EOF
          by (simp add: next_attempt_def i1_def [symmetric] i2_def Let_def)
        have "good_offset (i2\<lparr>fpos := pos2\<rparr>) \<le> fpos (i2\<lparr>fpos := pos2\<rparr>)"
          using p p1 p2 g i1 i2 by simp
        from cursor_eof_mono [OF this, of f] show ?thesis
          unfolding na attempt_ok_def using i2 by auto
      next
        case ROW_NULL
        have na: "next_attempt a f i mo =
                    Restart (say [Say_warn_failed_to_read_row] (i2\<lparr>fpos := pos2\<rparr>)) (pos1 - 4)"
          using r1' r2 True r3 ROW_NULL
          by (simp add: next_attempt_def i1_def [symmetric] i2_def Let_def)
        from next_attempt_Restart [OF na] g
        show ?thesis
          unfolding na attempt_ok_def using i2 by (simp add: say_def start_pos_def)
      next
        case (Row r)
        have na: "next_attempt a f i mo =
                    Done (Some r) (i2\<lparr>fpos := pos2, good_offset := pos2,
                                       row_count := row_count i2 + 1\<rparr>)"
          using r1' r2 True r3 Row
          by (simp add: next_attempt_def i1_def [symmetric] i2_def Let_def)
        from r3 Row row_reader_Row [of a f pos1 r pos2]
        have rr: "pos2 = pos1 + length r" "r = take (length r) (drop pos1 f)" by simp_all
        have "pos2 - length r = pos1" using rr(1) by simp
        then show ?thesis
          unfolding na attempt_ok_def using i2 p p1 g i1 rr by simp
      qed
    qed
  qed
qed

lemma attempt_ok_trans:
  assumes "attempt_ok f i (Restart i1 mo1)" and "attempt_ok f i1 (Done r i')"
  shows "attempt_ok f i (Done r i')"
  using assms by (auto simp: attempt_ok_def split: option.splits)

lemma next_restart_ok:
  "good_offset i \<le> start_pos i mo \<Longrightarrow> next_restart a f i mo = (r, i') \<Longrightarrow>
   attempt_ok f i (Done r i')"
proof (induction a f i mo rule: next_restart.induct)
  case (1 a f i mo)
  note ok = next_attempt_ok [OF "1.prems"(1), of f a]
  show ?case
  proof (cases "next_attempt a f i mo")
    case (Done r1 i1)
    with "1.prems"(2) have "r1 = r" "i1 = i'"
      by (simp_all add: next_restart_Done)
    with ok Done show ?thesis by simp
  next
    case (Restart i1 mo1)
    with ok have ok1: "attempt_ok f i (Restart i1 mo1)" by simp
    then have g1: "good_offset i1 \<le> start_pos i1 mo1" by (simp add: attempt_ok_def)
    from "1.prems"(2) Restart have "next_restart a f i1 mo1 = (r, i')"
      by (simp add: next_restart_Restart)
    from "1.IH" [OF Restart g1 this] ok1 show ?thesis
      by (rule attempt_ok_trans [rotated])
  qed
qed

lemma next_ok:
  assumes "good_offset i \<le> fpos i" and "xlog_cursor_v11_next a f i = Some (r, i')"
  shows "attempt_ok f i (Done r i')"
proof -
  from assms(2) have "next_restart a f i 0 = (r, i')"
    by (simp add: xlog_cursor_v11_next_def split: if_splits)
  with assms(1) show ?thesis
    by (intro next_restart_ok [of i 0 a f r i']) (simp_all add: start_pos_def)
qed

lemma xlog_cursor_v11_close_rewinds:
  "good_offset (xlog_cursor_v11_close i) = good_offset i \<and>
   fpos (xlog_cursor_v11_close i) = good_offset i \<and>
   rows (xlog_cursor_v11_close i) = rows i + row_count i"
  by (simp add: xlog_cursor_v11_close_def)

lemma cursor_states_hd: "hd (cursor_states a fs i) = i"
  by (cases fs) simp_all

lemma cursor_states_sorted:
  "good_offset i \<le> fpos i \<Longrightarrow>
   sorted (map good_offset (cursor_states a fs i)) \<and>
   (\<forall>j \<in> set (cursor_states a fs i). good_offset j \<le> fpos j)"
proof (induction fs arbitrary: i)
  case Nil
  then show ?case by simp
next
  case (Cons f fs)
  show ?case
  proof (cases "xlog_cursor_v11_next a f i")
    case None
    with Cons.prems show ?thesis by simp
  next
    case (Some p)
    obtain r i1 where p: "p = (r, i1)" by (cases p)
    from next_ok [OF Cons.prems, of a f r i1] Some p
    have ok: "attempt_ok f i (Done r i1)" by simp
    then have g: "good_offset i \<le> good_offset i1" "good_offset i1 \<le> fpos i1"
      by (auto simp: attempt_ok_def split: option.splits)
    from Cons.IH [OF g(2)] have ih: "sorted (map good_offset (cursor_states a fs i1))"
      "\<forall>j \<in> set (cursor_states a fs i1). good_offset j \<le> fpos j" by simp_all
    have "\<forall>x \<in> set (map good_offset (cursor_states a fs i1)). good_offset i1 \<le> x"
      using ih(1) cursor_states_hd [of a fs i1]
      by (cases "cursor_states a fs i1") auto
    with g(1) have "\<forall>x \<in> set (map good_offset (cursor_states a fs i1)). good_offset i \<le> x"
      by auto
    with ih Cons.prems show ?thesis
      using Some p by simp
  qed
qed

subsection \<open>The concrete files\<close>

text \<open>Facts of the records and files that the theorems below are run on.\<close>

lemma framed_rec1: "framed_v11 rec1"
  by (simp add: framed_v11_def rec1_def header1_def row_marker_bytes_def window_def row_marker_v11_def)

lemma framed_rec2: "framed_v11 rec2"
  by (simp add: framed_v11_def rec2_def row_marker_bytes_def window_def row_marker_v11_def)


lemma crc32_calc_body1: "crc32_calc 0 [0x41] = 0xB3109EBF"
  by (simp add: crc32_calc_def crc32c_byte_def crc32c_bit_def)

lemma crc32_calc_header1: "crc32_calc 0 (drop 4 header1) \<noteq> 0"
  by (simp add: crc32_calc_def crc32c_byte_def crc32c_bit_def header1_def)

lemma cursor0_fields:
  "eof_read cursor0 = False" "fpos cursor0 = 0" "good_offset cursor0 = 0"
  "row_count cursor0 = 0" "said cursor0 = []" "rows cursor0 = 0"
  by (simp_all add: cursor0_def xlog_cursor_v11_open_def)

lemma length_rec: "length rec1 = 33" "length rec2 = 33" "length junk3 = 3"
  by (simp_all add: rec1_def rec2_def junk3_def header1_def row_marker_bytes_def)

lemma length_file: "length file4 = 65" "length file5 = 34" "length header40 = 28"
  "length row_marker_bytes = 4"
  by (simp_all add: file4_def file5_def header40_def rec1_def rec2_def header1_def
                    row_marker_bytes_def)

lemma always_True: "always n"
  by (simp add: always_def)

subsection \<open>The row reader and the checksums\<close>

text \<open>
  C2 (as amended): \<open>row_reader_v11\<close> returns a framed record as a row
  whenever its 28 header bytes and its \<open>len > 0\<close> body bytes can be read and
  the region gives the memory, whatever the stored \<open>header_crc32c\<close> and
  \<open>data_crc32c\<close> are; the two checksums it computes are compared with
  nothing.  A row it returns is the header and body bytes as they stand in the
  file.
\<close>

theorem row_reader_v11_any_crc:
  "(length hcrc = 4 \<and> length mid = 16 \<and> length lenb = 4 \<and> length dcrc = 4 \<and>
    unat (le_word lenb :: 32 word) = length body \<and> body \<noteq> [] \<and>
    region_alloc (28 + length body) \<longrightarrow>
      row_reader_v11 region_alloc (pre @ hcrc @ mid @ lenb @ dcrc @ body @ rest) (length pre)
        = (Row (hcrc @ mid @ lenb @ dcrc @ body), length pre + 28 + length body)) \<and>
   (row_reader_v11 region_alloc f pos = (Row r, pos') \<longrightarrow>
      r = take (length r) (drop pos f) \<and> 28 < length r \<and> pos' = pos + length r)"
proof (intro conjI impI)
  assume "length hcrc = 4 \<and> length mid = 16 \<and> length lenb = 4 \<and> length dcrc = 4 \<and>
    unat (le_word lenb :: 32 word) = length body \<and> body \<noteq> [] \<and>
    region_alloc (28 + length body)"
  then show "row_reader_v11 region_alloc (pre @ hcrc @ mid @ lenb @ dcrc @ body @ rest) (length pre)
        = (Row (hcrc @ mid @ lenb @ dcrc @ body), length pre + 28 + length body)"
    by (intro row_reader_any_crc) blast+
next
  assume a: "row_reader_v11 region_alloc f pos = (Row r, pos')"
  from row_reader_Row [OF a] show "r = take (length r) (drop pos f)" by blast
  from row_reader_Row [OF a] show "28 < length r" by blast
  from row_reader_Row [OF a] show "pos' = pos + length r" by blast
qed

theorem row_reader_v11_any_crc_witness:
  "row_reader_v11 always (row_marker_bytes @ record3) 4 = (Row record3, 34)"
proof -
  have h: "length [0xde, 0xad, 0xbe, 0xef :: byte] = 4 \<and>
           length [3, 0, 0, 0, 0, 0, 0, 0, 0, 0, 0, 0, 0, 0, 0, 0 :: byte] = 16 \<and>
           length [2, 0, 0, 0 :: byte] = 4 \<and> length [1, 2, 3, 4 :: byte] = 4 \<and>
           unat (le_word [2, 0, 0, 0] :: 32 word) = length [0x61, 0x62 :: byte] \<and>
           [0x61, 0x62 :: byte] \<noteq> [] \<and> always (28 + length [0x61, 0x62 :: byte])"
    by (simp add: always_def)
  note T = row_reader_v11_any_crc
             [where pre = row_marker_bytes and rest = "[]" and region_alloc = always
                and hcrc = "[0xde, 0xad, 0xbe, 0xef]"
                and mid = "[3, 0, 0, 0, 0, 0, 0, 0, 0, 0, 0, 0, 0, 0, 0, 0]"
                and lenb = "[2, 0, 0, 0]" and dcrc = "[1, 2, 3, 4]" and body = "[0x61, 0x62]",
              THEN conjunct1, THEN mp, OF h]
  have f: "row_marker_bytes @ record3 =
           row_marker_bytes @ [0xde, 0xad, 0xbe, 0xef]
           @ [3, 0, 0, 0, 0, 0, 0, 0, 0, 0, 0, 0, 0, 0, 0, 0]
           @ [2, 0, 0, 0] @ [1, 2, 3, 4] @ [0x61, 0x62] @ []"
    by (simp add: record3_def)
  have r: "[0xde, 0xad, 0xbe, 0xef] @ [3, 0, 0, 0, 0, 0, 0, 0, 0, 0, 0, 0, 0, 0, 0, 0]
           @ [2, 0, 0, 0] @ [1, 2, 3, 4] @ [0x61, 0x62] = record3"
    by (simp add: record3_def)
  have l: "length row_marker_bytes + 28 + length [0x61, 0x62 :: byte] = 34"
          "length row_marker_bytes = 4"
    by (simp_all add: row_marker_bytes_def)
  show ?thesis
    using T unfolding f [symmetric] r l by simp
qed

theorem row_reader_v11_crc_counterexample:
  "row_reader_v11 always (header1 @ [0x41]) 0 = (Row (header1 @ [0x41]), 29) \<and>
   header_crc32c (header_v11_of header1) \<noteq> crc32_calc 0 (drop 4 header1) \<and>
   data_crc32c (header_v11_of header1) \<noteq> crc32_calc 0 [0x41]"
proof -
  have l: "1 = unat (le_word (take 4 (drop (0 + 20) (header1 @ [0x41]))) :: 32 word)"
    by (simp add: header1_def)
  have "row_reader_v11 always (header1 @ [0x41]) 0 =
          (Row (take (28 + 1) (drop 0 (header1 @ [0x41]))), 0 + 28 + 1)"
    by (rule row_reader_complete [OF _ l]) (simp_all add: header1_def always_def)
  then have a: "row_reader_v11 always (header1 @ [0x41]) 0 = (Row (header1 @ [0x41]), 29)"
    by (simp add: header1_def)
  have b: "header_crc32c (header_v11_of header1) = 0" "data_crc32c (header_v11_of header1) = 0"
    by (simp_all add: header_v11_of_def header1_def)
  from a b crc32_calc_header1 crc32_calc_body1 show ?thesis by simp
qed

subsection \<open>A record that cannot be decoded\<close>

text \<open>
  C4 (as amended): after a row marker was found, a body read that falls short
  of \<open>len\<close> bytes (or a \<open>len\<close> of 0) ends the call through \<open>eof\<close>: no row is
  returned, \<open>good_offset\<close>, \<open>eof_read\<close> and \<open>row_count\<close> stay, the stream
  stands at the end of the file, and nothing is resynchronized.  The cursor goes
  back to \<open>restart\<close> and scans on from the byte after the marker, with
  \<open>good_offset\<close> unchanged, only when the row reader returns NULL, that is when
  the region cannot give the row's memory.  A record whose header and body can
  be read is returned, and \<open>good_offset\<close> moves behind it, whatever its stored
  checksums are.
\<close>

theorem xlog_cursor_v11_next_decode_failure:
  assumes "\<not> eof_read i" and "good_offset i \<le> fpos i" and "fpos i \<le> m"
      and "\<forall>j. fpos i \<le> j \<and> j < m \<longrightarrow> window f j \<noteq> row_marker_v11"
      and "window f m = row_marker_v11" and "m + 32 \<le> length f"
      and "mlen = unat (le_word (take 4 (drop (m + 24) f)) :: 32 word)"
  shows "(region_alloc (28 + mlen) \<and> (mlen = 0 \<or> length f < m + 32 + mlen) \<longrightarrow>
            xlog_cursor_v11_next region_alloc f i =
              Some (None,
                    i\<lparr>fpos := (if mlen = 0 then m + 32 else length f),
                      said := said i
                        @ (if good_offset i \<noteq> m
                           then [Say_warn_skipped (int m - int (good_offset i)) (good_offset i)]
                           else [])
                        @ [Say_debug_magic_found m]\<rparr>)) \<and>
         (\<not> region_alloc (28 + mlen) \<and> 0 < m \<longrightarrow>
            xlog_cursor_v11_next region_alloc f i =
              Some (next_restart region_alloc f
                      (i\<lparr>said := said i
                           @ (if good_offset i \<noteq> m
                              then [Say_warn_skipped (int m - int (good_offset i)) (good_offset i)]
                              else [])
                           @ [Say_debug_magic_found m, Say_warn_failed_to_read_row],
                         fpos := m + 1\<rparr>) 0)) \<and>
         (region_alloc (28 + mlen) \<and> 0 < mlen \<and> m + 32 + mlen \<le> length f \<longrightarrow>
            xlog_cursor_v11_next region_alloc f i =
              Some (Some (take (28 + mlen) (drop (m + 4) f)),
                    i\<lparr>fpos := m + 32 + mlen, good_offset := m + 32 + mlen,
                      row_count := row_count i + 1,
                      said := said i
                        @ (if good_offset i \<noteq> m
                           then [Say_warn_skipped (int m - int (good_offset i)) (good_offset i)]
                           else [])
                        @ [Say_debug_magic_found m]\<rparr>))"
proof (intro conjI impI)
  assume "region_alloc (28 + mlen) \<and> (mlen = 0 \<or> length f < m + 32 + mlen)"
  then show "xlog_cursor_v11_next region_alloc f i =
              Some (None,
                    i\<lparr>fpos := (if mlen = 0 then m + 32 else length f),
                      said := said i
                        @ (if good_offset i \<noteq> m
                           then [Say_warn_skipped (int m - int (good_offset i)) (good_offset i)]
                           else [])
                        @ [Say_debug_magic_found m]\<rparr>)"
    using assms by (intro next_short_body) blast+
next
  assume a: "\<not> region_alloc (28 + mlen) \<and> 0 < m"
  let ?i' = "i\<lparr>fpos := m + 32,
                said := said i
                  @ (if good_offset i \<noteq> m
                     then [Say_warn_skipped (int m - int (good_offset i)) (good_offset i)]
                     else [])
                  @ [Say_debug_magic_found m, Say_warn_failed_to_read_row]\<rparr>"
  have "xlog_cursor_v11_next region_alloc f i = Some (next_restart region_alloc f ?i' m)"
    using assms a by (intro next_no_memory) blast+
  also have "next_restart region_alloc f ?i' m = next_restart region_alloc f (?i'\<lparr>fpos := m + 1\<rparr>) 0"
    using a by (intro next_restart_resume) blast
  finally show "xlog_cursor_v11_next region_alloc f i =
              Some (next_restart region_alloc f
                      (i\<lparr>said := said i
                           @ (if good_offset i \<noteq> m
                              then [Say_warn_skipped (int m - int (good_offset i)) (good_offset i)]
                              else [])
                           @ [Say_debug_magic_found m, Say_warn_failed_to_read_row],
                         fpos := m + 1\<rparr>) 0)"
    by simp
next
  assume "region_alloc (28 + mlen) \<and> 0 < mlen \<and> m + 32 + mlen \<le> length f"
  then show "xlog_cursor_v11_next region_alloc f i =
              Some (Some (take (28 + mlen) (drop (m + 4) f)),
                    i\<lparr>fpos := m + 32 + mlen, good_offset := m + 32 + mlen,
                      row_count := row_count i + 1,
                      said := said i
                        @ (if good_offset i \<noteq> m
                           then [Say_warn_skipped (int m - int (good_offset i)) (good_offset i)]
                           else [])
                        @ [Say_debug_magic_found m]\<rparr>)"
    using assms by (intro next_first_marker) blast+
qed

theorem xlog_cursor_v11_next_decode_failure_witness:
  "xlog_cursor_v11_next always (row_marker_bytes @ header40) cursor0 =
     Some (None, cursor0\<lparr>fpos := 32, said := [Say_debug_magic_found 0]\<rparr>) \<and>
   xlog_cursor_v11_next never file5 cursor0 =
     Some (next_restart never file5
             (cursor0\<lparr>said := [Say_warn_skipped 1 0, Say_debug_magic_found 1,
                               Say_warn_failed_to_read_row],
                      fpos := 2\<rparr>) 0) \<and>
   xlog_cursor_v11_next always rec1 cursor0 =
     Some (Some (drop 4 rec1),
           cursor0\<lparr>fpos := 33, good_offset := 33, row_count := 1,
                   said := [Say_debug_magic_found 0]\<rparr>)"
proof -
  let ?f1 = "row_marker_bytes @ header40"
  have i0: "\<not> eof_read cursor0" "good_offset cursor0 \<le> fpos cursor0"
    by (simp_all add: cursor0_fields)
  have le0: "fpos cursor0 \<le> 0" and le1: "fpos cursor0 \<le> 1" by (simp_all add: cursor0_fields)
  have free0: "\<And>f. \<forall>j. fpos cursor0 \<le> j \<and> j < 0 \<longrightarrow> window f j \<noteq> row_marker_v11"
    by simp
  have w1: "window ?f1 0 = row_marker_v11"
    by (simp add: window_def row_marker_bytes_def row_marker_v11_def)
  have l1: "40 = unat (le_word (take 4 (drop (0 + 24) ?f1)) :: 32 word)"
    by (simp add: row_marker_bytes_def header40_def)
  have fit1: "0 + 32 \<le> length ?f1" by (simp add: length_file)
  note T1 = xlog_cursor_v11_next_decode_failure
              [where region_alloc = always, OF i0 le0 free0 w1 fit1 l1, THEN conjunct1]
  have a1: "xlog_cursor_v11_next always ?f1 cursor0 =
     Some (None, cursor0\<lparr>fpos := 32, said := [Say_debug_magic_found 0]\<rparr>)"
    using T1 by (simp add: always_True length_file cursor0_fields)
  have free5: "\<forall>j. fpos cursor0 \<le> j \<and> j < 1 \<longrightarrow> window file5 j \<noteq> row_marker_v11"
    by (simp add: cursor0_fields window_def file5_def rec1_def row_marker_bytes_def
                  row_marker_v11_def)
  have w5: "window file5 1 = row_marker_v11"
    by (simp add: window_def file5_def rec1_def row_marker_bytes_def row_marker_v11_def)
  have l5: "1 = unat (le_word (take 4 (drop (1 + 24) file5)) :: 32 word)"
    by (simp add: file5_def rec1_def row_marker_bytes_def header1_def)
  have fit5: "1 + 32 \<le> length file5" by (simp add: length_file)
  note T2 = xlog_cursor_v11_next_decode_failure
              [where region_alloc = never, OF i0 le1 free5 w5 fit5 l5,
               THEN conjunct2, THEN conjunct1]
  have a2: "xlog_cursor_v11_next never file5 cursor0 =
     Some (next_restart never file5
             (cursor0\<lparr>said := [Say_warn_skipped 1 0, Say_debug_magic_found 1,
                               Say_warn_failed_to_read_row],
                      fpos := 2\<rparr>) 0)"
    using T2 by (simp add: never_def cursor0_fields numeral_2_eq_2)
  have w3: "window rec1 0 = row_marker_v11"
    by (simp add: window_def rec1_def row_marker_bytes_def row_marker_v11_def)
  have l3: "1 = unat (le_word (take 4 (drop (0 + 24) rec1)) :: 32 word)"
    by (simp add: rec1_def row_marker_bytes_def header1_def)
  have fit3: "0 + 32 \<le> length rec1" by (simp add: length_rec)
  note T3 = xlog_cursor_v11_next_decode_failure
              [where region_alloc = always, OF i0 le0 free0 w3 fit3 l3,
               THEN conjunct2, THEN conjunct2]
  have a3: "xlog_cursor_v11_next always rec1 cursor0 =
     Some (Some (drop 4 rec1),
           cursor0\<lparr>fpos := 33, good_offset := 33, row_count := 1,
                   said := [Say_debug_magic_found 0]\<rparr>)"
    using T3 by (simp add: always_True length_rec cursor0_fields)
  from a1 a2 a3 show ?thesis by blast
qed

theorem xlog_cursor_v11_short_body_counterexample:
  "xlog_cursor_v11_next always file4 cursor0 =
     Some (None, cursor0\<lparr>fpos := 65, said := [Say_debug_magic_found 0]\<rparr>) \<and>
   xlog_cursor_v11_next always file4 (cursor0\<lparr>fpos := 65, said := [Say_debug_magic_found 0]\<rparr>) =
     Some (None, cursor0\<lparr>fpos := 65, said := [Say_debug_magic_found 0]\<rparr>) \<and>
   xlog_cursor_v11_next always file4 (cursor0\<lparr>fpos := 1\<rparr>) =
     Some (Some (drop 4 rec2),
           cursor0\<lparr>fpos := 65, good_offset := 65, row_count := 1,
                   said := [Say_warn_skipped 32 0, Say_debug_magic_found 32]\<rparr>)"
proof -
  have w0: "window file4 0 = row_marker_v11"
    by (simp add: window_def file4_def row_marker_bytes_def row_marker_v11_def)
  have l40: "40 = unat (le_word (take 4 (drop (0 + 24) file4)) :: 32 word)"
    by (simp add: file4_def row_marker_bytes_def header40_def)
  have c1: "xlog_cursor_v11_next always file4 cursor0 =
     Some (None, cursor0\<lparr>fpos := 65, said := [Say_debug_magic_found 0]\<rparr>)"
    using next_short_body [where i = cursor0 and m = 0 and f = file4 and mlen = 40
                             and region_alloc = always] w0 l40
    by (simp add: cursor0_fields length_file always_True)
  have c2: "xlog_cursor_v11_next always file4 (cursor0\<lparr>fpos := 65, said := [Say_debug_magic_found 0]\<rparr>) =
     Some (None, cursor0\<lparr>fpos := 65, said := [Say_debug_magic_found 0]\<rparr>)"
    using next_at_end [where i = "cursor0\<lparr>fpos := 65, said := [Say_debug_magic_found 0]\<rparr>"
                         and f = file4 and region_alloc = always]
    by (simp add: cursor0_fields length_file)
  have free: "\<forall>j. fpos (cursor0\<lparr>fpos := 1\<rparr>) \<le> j \<and> j < 32 \<longrightarrow> window file4 j \<noteq> row_marker_v11"
    by (simp add: all_interval_list upt_rec window_def file4_def row_marker_bytes_def
                  header40_def rec2_def row_marker_v11_def)
  have w32: "window file4 32 = row_marker_v11"
    by (simp add: window_def file4_def row_marker_bytes_def header40_def rec2_def
                  row_marker_v11_def)
  have l1: "1 = unat (le_word (take 4 (drop (32 + 24) file4)) :: 32 word)"
    by (simp add: file4_def row_marker_bytes_def header40_def rec2_def)
  have pay: "drop 36 file4 = drop 4 rec2"
    by (simp add: file4_def row_marker_bytes_def header40_def rec2_def)
  have c3: "xlog_cursor_v11_next always file4 (cursor0\<lparr>fpos := 1\<rparr>) =
     Some (Some (drop 4 rec2),
           cursor0\<lparr>fpos := 65, good_offset := 65, row_count := 1,
                   said := [Say_warn_skipped 32 0, Say_debug_magic_found 32]\<rparr>)"
    using next_first_marker [where i = "cursor0\<lparr>fpos := 1\<rparr>" and m = 32 and f = file4
                               and mlen = 1 and region_alloc = always, OF _ _ free w32 l1]
    by (simp add: cursor0_fields length_file length_rec always_True pay)
  from c1 c2 c3 show ?thesis by blast
qed

subsection \<open>The end of the file\<close>

text \<open>
  C5: at the label \<open>eof\<close>, when the stream stands at \<open>good_offset + 4\<close>, the
  cursor reads the four bytes at \<open>good_offset\<close> again: on \<open>eof_marker_v11\<close> it
  sets \<open>eof_read\<close> and moves \<open>good_offset\<close> behind the marker, on
  \<open>row_marker_v11\<close> it says nothing, on anything else it logs that the eof
  marker is corrupt; at any other position it does nothing.  A call that sets
  \<open>eof_read\<close> returns no row.  After reading back a file of framed records,
  the call behind the last record returns no row, and \<open>eof_read\<close> is set
  exactly when the file ends with the eof marker.
\<close>

theorem xlog_cursor_v11_eof:
  "(fpos i \<noteq> good_offset i + 4 \<longrightarrow> cursor_eof f i = i) \<and>
   (fpos i = good_offset i + 4 \<and> good_offset i + 4 \<le> length f \<longrightarrow>
      cursor_eof f i =
        (if window f (good_offset i) = eof_marker_v11
         then i\<lparr>fpos := good_offset i + 4, good_offset := good_offset i + 4, eof_read := True\<rparr>
         else if window f (good_offset i) = row_marker_v11
         then i\<lparr>fpos := good_offset i + 4\<rparr>
         else i\<lparr>fpos := good_offset i + 4,
                said := said i @ [Say_error_eof_marker_corrupt (window f (good_offset i))]\<rparr>)) \<and>
   (good_offset i \<le> fpos i \<and> xlog_cursor_v11_next region_alloc f i = Some (r, i1) \<and>
    eof_read i1 \<longrightarrow>
      r = None \<and> good_offset i1 = good_offset i + 4 \<and>
      window f (good_offset i) = eof_marker_v11) \<and>
   ((\<forall>rc \<in> set recs. framed_v11 rc) \<and> (\<forall>k. region_alloc k) \<and> length recs < n \<and>
    \<not> eof_read c \<and> fpos c = length pre \<and> good_offset c = length pre \<longrightarrow>
      (\<exists>c'. cursor_rows region_alloc
                (pre @ concat recs @ (if sealed then eof_marker_bytes else [])) n c
              = (map (drop 4) recs, c') \<and>
            eof_read c' = sealed \<and>
            row_count c' = row_count c + length recs \<and>
            good_offset c' = length pre + length (concat recs) + (if sealed then 4 else 0)))"
proof (intro conjI impI)
  show "fpos i \<noteq> good_offset i + 4 \<Longrightarrow> cursor_eof f i = i"
    using cursor_eof_cases [of i f] by simp
next
  assume "fpos i = good_offset i + 4 \<and> good_offset i + 4 \<le> length f"
  then show "cursor_eof f i =
        (if window f (good_offset i) = eof_marker_v11
         then i\<lparr>fpos := good_offset i + 4, good_offset := good_offset i + 4, eof_read := True\<rparr>
         else if window f (good_offset i) = row_marker_v11
         then i\<lparr>fpos := good_offset i + 4\<rparr>
         else i\<lparr>fpos := good_offset i + 4,
                said := said i @ [Say_error_eof_marker_corrupt (window f (good_offset i))]\<rparr>)"
    using cursor_eof_cases [of i f] by blast
next
  assume a: "good_offset i \<le> fpos i \<and> xlog_cursor_v11_next region_alloc f i = Some (r, i1) \<and>
    eof_read i1"
  then have ok: "attempt_ok f i (Done r i1)" by (intro next_ok) blast+
  from a have ne: "\<not> eof_read i"
    by (auto simp: xlog_cursor_v11_next_def split: if_splits)
  from ok ne a show "r = None" by (cases r) (auto simp: attempt_ok_def)
  from ok ne a show "good_offset i1 = good_offset i + 4" by (cases r) (auto simp: attempt_ok_def)
  from ok ne a show "window f (good_offset i) = eof_marker_v11"
    by (cases r) (auto simp: attempt_ok_def)
next
  assume "(\<forall>rc \<in> set recs. framed_v11 rc) \<and> (\<forall>k. region_alloc k) \<and> length recs < n \<and>
    \<not> eof_read c \<and> fpos c = length pre \<and> good_offset c = length pre"
  then show "\<exists>c'. cursor_rows region_alloc
                (pre @ concat recs @ (if sealed then eof_marker_bytes else [])) n c
              = (map (drop 4) recs, c') \<and>
            eof_read c' = sealed \<and>
            row_count c' = row_count c + length recs \<and>
            good_offset c' = length pre + length (concat recs) + (if sealed then 4 else 0)"
    by (intro read_back) blast+
qed

theorem xlog_cursor_v11_eof_witness:
  "cursor_eof eof_marker_bytes cursor0 = cursor0 \<and>
   cursor_eof eof_marker_bytes (cursor0\<lparr>fpos := 4\<rparr>) =
     cursor0\<lparr>fpos := 4, good_offset := 4, eof_read := True\<rparr> \<and>
   cursor_eof row_marker_bytes (cursor0\<lparr>fpos := 4\<rparr>) = cursor0\<lparr>fpos := 4\<rparr> \<and>
   cursor_eof [1, 2, 3, 4] (cursor0\<lparr>fpos := 4\<rparr>) =
     cursor0\<lparr>fpos := 4, said := [Say_error_eof_marker_corrupt 0x04030201]\<rparr> \<and>
   xlog_cursor_v11_next always eof_marker_bytes cursor0 =
     Some (None, cursor0\<lparr>fpos := 4, good_offset := 4, eof_read := True,
                        said := [Say_debug_eof_looking_for_magic]\<rparr>) \<and>
   (\<exists>c'. cursor_rows always (rec1 @ rec2 @ eof_marker_bytes) 3 cursor0
            = ([drop 4 rec1, drop 4 rec2], c') \<and>
         eof_read c' \<and> row_count c' = 2 \<and> good_offset c' = 70) \<and>
   (\<exists>c'. cursor_rows always (rec1 @ rec2) 3 cursor0 = ([drop 4 rec1, drop 4 rec2], c') \<and>
         \<not> eof_read c' \<and> row_count c' = 2 \<and> good_offset c' = 66)"
proof -
  let ?c4 = "cursor0\<lparr>fpos := 4\<rparr>"
  let ?e = "cursor0\<lparr>fpos := 4, good_offset := 4, eof_read := True,
                        said := [Say_debug_eof_looking_for_magic]\<rparr>"
  have we: "window eof_marker_bytes 0 = eof_marker_v11"
    by (simp add: window_def eof_marker_bytes_def eof_marker_v11_def)
  have wr: "window row_marker_bytes 0 = row_marker_v11"
    by (simp add: window_def row_marker_bytes_def row_marker_v11_def)
  have wc: "window [1, 2, 3, 4] 0 = 0x04030201"
    by (simp add: window_def)
  have ne: "(0x04030201 :: log_magic_t) \<noteq> eof_marker_v11"
    "(0x04030201 :: log_magic_t) \<noteq> row_marker_v11"
    by (simp_all add: eof_marker_v11_def row_marker_v11_def)
  have l4: "length eof_marker_bytes = 4" "length row_marker_bytes = 4"
    by (simp_all add: eof_marker_bytes_def row_marker_bytes_def)
  note T1 = xlog_cursor_v11_eof [where i = cursor0 and f = eof_marker_bytes, THEN conjunct1]
  note T2a = xlog_cursor_v11_eof [where i = ?c4 and f = eof_marker_bytes,
                                  THEN conjunct2, THEN conjunct1]
  note T2b = xlog_cursor_v11_eof [where i = ?c4 and f = row_marker_bytes,
                                  THEN conjunct2, THEN conjunct1]
  note T2c = xlog_cursor_v11_eof [where i = ?c4 and f = "[1, 2, 3, 4]",
                                  THEN conjunct2, THEN conjunct1]
  have n1: "xlog_cursor_v11_next always eof_marker_bytes cursor0 = Some (None, ?e)"
    using next_at_tail(2) [where i = cursor0 and pre = "[]" and region_alloc = always]
    by (simp add: cursor0_fields)
  note T3 = xlog_cursor_v11_eof [where i = cursor0 and f = eof_marker_bytes and r = None
                                   and ?i1.0 = ?e and region_alloc = always,
                                 THEN conjunct2, THEN conjunct2, THEN conjunct1]
  have h4: "(\<forall>rc \<in> set [rec1, rec2]. framed_v11 rc) \<and> (\<forall>k. always k) \<and>
    length [rec1, rec2] < 3 \<and>
    \<not> eof_read cursor0 \<and> fpos cursor0 = length ([] :: byte list) \<and>
    good_offset cursor0 = length ([] :: byte list)"
    using framed_rec1 framed_rec2 by (simp add: cursor0_fields always_True)
  note T4a = xlog_cursor_v11_eof [where recs = "[rec1, rec2]" and region_alloc = always
                                    and n = 3 and c = cursor0 and pre = "[]" and sealed = True,
                                  THEN conjunct2, THEN conjunct2, THEN conjunct2, THEN mp, OF h4]
  note T4b = xlog_cursor_v11_eof [where recs = "[rec1, rec2]" and region_alloc = always
                                    and n = 3 and c = cursor0 and pre = "[]" and sealed = False,
                                  THEN conjunct2, THEN conjunct2, THEN conjunct2, THEN mp, OF h4]
  have a1: "cursor_eof eof_marker_bytes cursor0 = cursor0"
    using T1 by (simp add: cursor0_fields)
  have a2: "cursor_eof eof_marker_bytes ?c4 = cursor0\<lparr>fpos := 4, good_offset := 4, eof_read := True\<rparr>"
    using T2a by (simp add: cursor0_fields we l4)
  have a3: "cursor_eof row_marker_bytes ?c4 = ?c4"
    using T2b by (simp add: cursor0_fields wr l4 eof_not_row [symmetric])
  have a4: "cursor_eof [1, 2, 3, 4] ?c4 =
              cursor0\<lparr>fpos := 4, said := [Say_error_eof_marker_corrupt 0x04030201]\<rparr>"
    using T2c by (simp add: cursor0_fields wc ne)
  have a5: "None = (None :: byte list option) \<and> good_offset ?e = good_offset cursor0 + 4 \<and>
            window eof_marker_bytes (good_offset cursor0) = eof_marker_v11"
    using T3 n1 by (simp add: cursor0_fields)
  have a6: "\<exists>c'. cursor_rows always (rec1 @ rec2 @ eof_marker_bytes) 3 cursor0
                 = ([drop 4 rec1, drop 4 rec2], c') \<and>
              eof_read c' \<and> row_count c' = 2 \<and> good_offset c' = 70"
    using T4a by (simp add: cursor0_fields length_rec numeral_2_eq_2 del: cursor_rows.simps)
  have a7: "\<exists>c'. cursor_rows always (rec1 @ rec2) 3 cursor0 = ([drop 4 rec1, drop 4 rec2], c') \<and>
              \<not> eof_read c' \<and> row_count c' = 2 \<and> good_offset c' = 66"
    using T4b by (simp add: cursor0_fields length_rec numeral_2_eq_2 del: cursor_rows.simps)
  show ?thesis
    using a1 a2 a3 a4 n1 a6 a7 by blast
qed

subsection \<open>Skipped bytes\<close>



subsection \<open>The good offset\<close>

text \<open>
  C10: \<open>good_offset\<close> starts at the position of the stream at
  \<open>xlog_cursor_v11_open\<close> and never decreases over any sequence of
  \<open>xlog_cursor_v11_next\<close> calls, whatever the file holds at each call.  A call
  leaves it alone, or sets it to the position of the stream just behind the row
  it returns, or, returning no row, moves it over the four bytes of an eof
  marker it read at \<open>good_offset\<close>.
\<close>

theorem good_offset_monotone:
  "good_offset (xlog_cursor_v11_open pos lrows) = pos \<and>
   sorted (map good_offset (cursor_states region_alloc fs (xlog_cursor_v11_open pos lrows))) \<and>
   (good_offset i \<le> fpos i \<and> xlog_cursor_v11_next region_alloc f i = Some (r, i1) \<longrightarrow>
      good_offset i1 \<le> fpos i1 \<and>
      (good_offset i1 = good_offset i \<or>
       (\<exists>rw. r = Some rw \<and> good_offset i < good_offset i1 \<and> good_offset i1 = fpos i1 \<and>
             rw = take (length rw) (drop (good_offset i1 - length rw) f)) \<or>
       (r = None \<and> eof_read i1 \<and> good_offset i1 = good_offset i + 4 \<and>
        window f (good_offset i) = eof_marker_v11)))"
proof (intro conjI impI)
  show "good_offset (xlog_cursor_v11_open pos lrows) = pos"
    by (simp add: xlog_cursor_v11_open_def)
  have "good_offset (xlog_cursor_v11_open pos lrows) \<le> fpos (xlog_cursor_v11_open pos lrows)"
    by (simp add: xlog_cursor_v11_open_def)
  from cursor_states_sorted [OF this]
  show "sorted (map good_offset (cursor_states region_alloc fs (xlog_cursor_v11_open pos lrows)))"
    by simp
next
  assume a: "good_offset i \<le> fpos i \<and> xlog_cursor_v11_next region_alloc f i = Some (r, i1)"
  then have ok: "attempt_ok f i (Done r i1)" by (intro next_ok) auto
  then show "good_offset i1 \<le> fpos i1"
    by (auto simp: attempt_ok_def split: option.splits)
  from ok show "good_offset i1 = good_offset i \<or>
       (\<exists>rw. r = Some rw \<and> good_offset i < good_offset i1 \<and> good_offset i1 = fpos i1 \<and>
             rw = take (length rw) (drop (good_offset i1 - length rw) f)) \<or>
       (r = None \<and> eof_read i1 \<and> good_offset i1 = good_offset i + 4 \<and>
        window f (good_offset i) = eof_marker_v11)"
    by (cases r) (auto simp: attempt_ok_def)
qed

theorem good_offset_monotone_witness:
  "good_offset (xlog_cursor_v11_open 0 0) = 0 \<and>
   sorted (map good_offset
      (cursor_states always
         [rec1 @ eof_marker_bytes, rec1 @ eof_marker_bytes, rec1 @ eof_marker_bytes]
         (xlog_cursor_v11_open 0 0))) \<and>
   map good_offset
      (cursor_states always
         [rec1 @ eof_marker_bytes, rec1 @ eof_marker_bytes, rec1 @ eof_marker_bytes]
         (xlog_cursor_v11_open 0 0)) = [0, 33, 37] \<and>
   xlog_cursor_v11_next always (rec1 @ eof_marker_bytes) cursor0 =
     Some (Some (drop 4 rec1),
           cursor0\<lparr>fpos := 33, good_offset := 33, row_count := 1,
                   said := [Say_debug_magic_found 0]\<rparr>)"
proof -
  let ?f = "rec1 @ eof_marker_bytes"
  let ?i1 = "cursor0\<lparr>fpos := 33, good_offset := 33, row_count := 1,
                   said := [Say_debug_magic_found 0]\<rparr>"
  let ?i2 = "?i1\<lparr>fpos := 37, good_offset := 37, eof_read := True,
               said := [Say_debug_magic_found 0, Say_debug_eof_looking_for_magic]\<rparr>"
  have s1: "xlog_cursor_v11_next always ?f cursor0 = Some (Some (drop 4 rec1), ?i1)"
    using next_framed [where r = rec1 and i = cursor0 and pre = "[]" and rest = eof_marker_bytes
                         and region_alloc = always]
    by (simp add: framed_rec1 cursor0_fields always_True length_rec)
  have s2: "xlog_cursor_v11_next always ?f ?i1 = Some (None, ?i2)"
    using next_at_tail(2) [where i = ?i1 and pre = rec1 and region_alloc = always]
    by (simp add: cursor0_fields length_rec)
  have s3: "xlog_cursor_v11_next always ?f ?i2 = None"
    by (simp add: xlog_cursor_v11_next_def)
  have st: "cursor_states always [?f, ?f, ?f] cursor0 = [cursor0, ?i1, ?i2]"
    by (simp only: cursor_states.simps s1 s2 s3 option.case prod.case)
  have m: "map good_offset [cursor0, ?i1, ?i2] = [0, 33, 37]"
    by (simp add: cursor0_fields)
  have h: "good_offset cursor0 \<le> fpos cursor0 \<and>
           xlog_cursor_v11_next always ?f cursor0 = Some (Some (drop 4 rec1), ?i1)"
    using s1 by (simp add: cursor0_fields)
  note T = good_offset_monotone [where pos = 0 and lrows = 0 and region_alloc = always
                                   and fs = "[?f, ?f, ?f]" and i = cursor0 and f = ?f
                                   and r = "Some (drop 4 rec1)" and ?i1.0 = ?i1,
                                 folded cursor0_def]
  from T have t1: "good_offset cursor0 = 0"
    and t2: "sorted (map good_offset (cursor_states always [?f, ?f, ?f] cursor0))"
    by blast+
  from T h have t3: "good_offset ?i1 \<le> fpos ?i1" by blast
  have t4: "map good_offset (cursor_states always [?f, ?f, ?f] cursor0) = [0, 33, 37]"
    using st m by (simp only:)
  show ?thesis
    unfolding cursor0_def [symmetric] using t1 t2 t4 s1 by blast
qed

section \<open>Properties of the directory scan\<close>

text \<open>
  With memory at hand the loop keeps, in the order of the listing, the
  signature of every name it takes, and warns once for every name it cannot
  parse.
\<close>

lemma scan_entries_all:
  assumes "\<forall>n. realloc_ok n"
  shows "scan_entries realloc_ok fext names signatures s_capacity log =
           Some (signatures @ [s. Signature s \<leftarrow> map (dirent fext) names],
                 log @ [Say_warn_cant_parse n. n \<leftarrow> names, dirent fext n = Cant_parse])"
  using assms
  by (induction names arbitrary: signatures s_capacity log)
     (auto simp: Let_def split: dirent_kind.splits)

lemma xdir_v11_scan_first:
  assumes "\<forall>n. realloc_ok n" and "sig dir = None"
      and "S = [s. Signature s \<leftarrow> map (dirent (filename_ext dir)) names]"
  shows "xdir_v11_scan realloc_ok (Some names) dir =
           (Scan_done (dir\<lparr>sig_count := length S,
                           sig := (if S = [] then None else Some (sort S))\<rparr>),
            [Say_warn_cant_parse n. n \<leftarrow> names, dirent (filename_ext dir) n = Cant_parse])"
  using assms by (simp add: xdir_v11_scan_def scan_entries_all)

text \<open>
  A name whose signature is taken is a dot-free prefix followed by the
  extension, and the signature lies strictly between \<open>LLONG_MIN\<close> and
  \<open>LLONG_MAX\<close>.  The prefix may be empty: \<open>strtoll\<close> then converts nothing,
  leaves its end pointer at the dot, and the name counts as signature 0.
\<close>

lemma dirent_Signature:
  assumes "dirent fext d_name = Signature s"
  shows "\<exists>p. d_name = p @ fext \<and> CHR ''.'' \<notin> set p \<and> fext \<noteq> [] \<and> hd fext = CHR ''.'' \<and>
             LLONG_MIN < s \<and> s < LLONG_MAX"
proof -
  let ?p = "takeWhile (\<lambda>x. x \<noteq> CHR ''.'') d_name"
  from assms have dot: "CHR ''.'' \<in> set d_name"
    by (auto simp: dirent_def strchr_def split: if_splits)
  with assms have ext: "drop (length ?p) d_name = fext"
    by (auto simp: dirent_def strchr_def split: if_splits)
  have dw: "drop (length ?p) d_name = dropWhile (\<lambda>x. x \<noteq> CHR ''.'') d_name"
    by (simp add: dropWhile_eq_drop)
  have "d_name = ?p @ dropWhile (\<lambda>x. x \<noteq> CHR ''.'') d_name" by simp
  with ext dw have n: "d_name = ?p @ fext" by simp
  have nd: "CHR ''.'' \<notin> set ?p" by (auto dest: set_takeWhileD)
  from dot have ne: "dropWhile (\<lambda>x. x \<noteq> CHR ''.'') d_name \<noteq> []" by simp
  then have "hd (dropWhile (\<lambda>x. x \<noteq> CHR ''.'') d_name) = CHR ''.''"
    using hd_dropWhile [of "\<lambda>x. x \<noteq> CHR ''.''" d_name] by simp
  with ne have fe: "fext \<noteq> []" "hd fext = CHR ''.''"
    unfolding ext [symmetric] dw by simp_all
  obtain v e where st: "strtoll d_name = (v, e)" by (cases "strtoll d_name")
  with assms dot ext have "v = s" "s \<noteq> LLONG_MAX" "s \<noteq> LLONG_MIN"
    by (auto simp: dirent_def strchr_def split: if_splits)
  moreover have "LLONG_MIN \<le> v \<and> v \<le> LLONG_MAX"
    using st by (auto simp: strtoll_def Let_def LLONG_MIN_def LLONG_MAX_def split: if_splits)
  ultimately have "LLONG_MIN < s \<and> s < LLONG_MAX" by simp
  with n nd fe show ?thesis by blast
qed

lemma dirent_empty_prefix: "dirent ''.xlog'' ''.xlog'' = Signature 0"
  by (simp add: dirent_def strchr_def strtoll_def isspace_def isdigit_def Let_def
                LLONG_MAX_def LLONG_MIN_def)

lemma scan_names6:
  "xdir_v11_scan always (Some names6) (xdir_v11_create ''/var/lib/wal'' XLOG) =
     (Scan_done ((xdir_v11_create ''/var/lib/wal'' XLOG)\<lparr>sig_count := 2, sig := Some [1, 5]\<rparr>),
      [Say_warn_cant_parse ''abc.xlog''])"
  by (simp add: xdir_v11_scan_def xdir_v11_create_def names6_def dirent_def strchr_def
                strtoll_def isspace_def isdigit_def digits_value_def LLONG_MAX_def LLONG_MIN_def
                Let_def always_def)

text \<open>
  C7: the first scan of a directory collects the signatures of the names that
  end in the directory's extension after a dot-free prefix that \<open>strtoll\<close>
  reads up to the dot, warns for the other names with that extension, sorts the
  signatures and installs them.  A scan of a directory that already holds an
  array does not replace it: it hands the directory object itself to \<open>free\<close>
  and then writes the new array and its count into the freed object.
\<close>

theorem xdir_v11_scan_again:
  "xdir_v11_scan always (Some names6) (xdir_v11_create ''/var/lib/wal'' XLOG) =
     (Scan_done dir_scanned, [Say_warn_cant_parse ''abc.xlog'']) \<and>
   xdir_v11_scan always (Some names6) dir_scanned =
     (Scan_dir_freed [1, 5], [Say_warn_cant_parse ''abc.xlog''])"
  by (simp add: xdir_v11_scan_def xdir_v11_create_def dir_scanned_def names6_def dirent_def
                strchr_def strtoll_def isspace_def isdigit_def digits_value_def LLONG_MAX_def
                LLONG_MIN_def Let_def always_def)

end
